theory Spec2Isabelle
  imports Main "HOL-Library.Multiset" "HOL-Library.List_Lexorder" "HOL-Library.Char_ord"
  "HOL-Library.Monad_Syntax"
begin

section \<open>JavaScript strings\<close>

text \<open>
  A JavaScript string is a sequence of UTF-16 code units. The embedding uses \<open>string\<close>
  (a list of 8-bit characters) and reads each character as the code unit of the same
  number, so it covers the strings whose code units are below 256. On these,
  \<^verbatim>\<open>String.prototype.trim\<close> removes the code units 9 to 13, 32 and 160 from both ends,
  \<^verbatim>\<open>toLowerCase\<close> adds 32 to the code units 65 to 90, 192 to 214 and 216 to 222, and the
  default \<^verbatim>\<open>Array.prototype.sort\<close> orders strings lexicographically by code unit, which is
  the order of \<open>List_Lexorder\<close> over \<open>Char_ord\<close>.
\<close>

definition isWhiteSpace :: "char \<Rightarrow> bool" where
  "isWhiteSpace c = (of_char c \<in> {9, 10, 11, 12, 13, 32, 160 :: nat})"

definition trimJS :: "string \<Rightarrow> string" where
  "trimJS s = rev (dropWhile isWhiteSpace (rev (dropWhile isWhiteSpace s)))"

definition lowerChar :: "char \<Rightarrow> char" where
  "lowerChar c =
     (let n = (of_char c :: nat)
      in if (65 \<le> n \<and> n \<le> 90) \<or> (192 \<le> n \<and> n \<le> 222 \<and> n \<noteq> 215)
         then char_of (n + 32) else c)"

definition toLowerCaseJS :: "string \<Rightarrow> string" where
  "toLowerCaseJS s = map lowerChar s"

text \<open>\<^verbatim>\<open>s.split(',')\<close>: the pieces between the commas; never the empty array.\<close>

fun splitComma :: "string \<Rightarrow> string list" where
  "splitComma [] = [[]]"
| "splitComma (c # cs) =
     (if c = CHR '','' then [] # splitComma cs
      else (case splitComma cs of
              [] \<Rightarrow> [[c]]
            | w # ws \<Rightarrow> (c # w) # ws))"

text \<open>\<^verbatim>\<open>a.join(',')\<close>.\<close>

fun joinComma :: "string list \<Rightarrow> string" where
  "joinComma [] = []"
| "joinComma [x] = x"
| "joinComma (x # y # ys) = x @ CHR '','' # joinComma (y # ys)"

subsection \<open>The canonical ingredient key\<close>

text \<open>
  \<^verbatim>\<open>getUniqueIngredientsName(ingredientsStr)\<close> of the recipe store: trim and lower-case
  the whole string, split it on commas, trim every piece, sort, join with commas.
\<close>

definition getUniqueIngredientsName :: "string \<Rightarrow> string" where
  "getUniqueIngredientsName ingredientsStr =
     (let ingredients = splitComma (toLowerCaseJS (trimJS ingredientsStr));
          ingredients = map trimJS ingredients;
          ingredients = sort ingredients
      in joinComma ingredients)"

text \<open>\<^verbatim>\<open>getUniqueCuisineName\<close> and \<^verbatim>\<open>getUniqueRecipeName\<close>.\<close>

definition getUniqueCuisineName :: "string \<Rightarrow> string" where
  "getUniqueCuisineName cuisine = toLowerCaseJS (trimJS cuisine)"

definition getUniqueRecipeName :: "string \<Rightarrow> string" where
  "getUniqueRecipeName recipeId = toLowerCaseJS (trimJS recipeId)"

text \<open>
  One ingredient as the key stores it: lower-cased and trimmed. Two elements name the same
  ingredient up to letter casing and surrounding whitespace when this form of them agrees.
\<close>

definition canonElement :: "string \<Rightarrow> string" where
  "canonElement x = trimJS (toLowerCaseJS x)"

subsection \<open>Escaping of string values\<close>

text \<open>
  \<^verbatim>\<open>escapeStringValue(value)\<close> of the client makes three global replacements. Read as
  JavaScript string literals and then as regular expressions, the first pattern is a
  backslash followed by a double quote and its replacement is two backslashes followed by
  a double quote; the second pattern is a double quote, replaced by a backslash and a
  double quote; the third pattern is a dollar sign, replaced by a backslash and a dollar
  sign (a dollar sign that ends a replacement string stands for itself).
\<close>

definition backslash :: char where
  "backslash = CHR 0x5C"

definition dquote :: char where
  "dquote = CHR 0x22"

definition dollar :: char where
  "dollar = CHR 0x24"

fun replaceEscapedQuotes :: "string \<Rightarrow> string" where
  "replaceEscapedQuotes (a # b # cs) =
     (if a = backslash \<and> b = dquote
      then backslash # backslash # dquote # replaceEscapedQuotes cs
      else a # replaceEscapedQuotes (b # cs))"
| "replaceEscapedQuotes [a] = [a]"
| "replaceEscapedQuotes [] = []"

definition escapeChar :: "char \<Rightarrow> char \<Rightarrow> string" where
  "escapeChar p c = (if c = p then [backslash, p] else [c])"

definition replaceQuotes :: "string \<Rightarrow> string" where
  "replaceQuotes s = concat (map (escapeChar dquote) s)"

definition replaceDollars :: "string \<Rightarrow> string" where
  "replaceDollars s = concat (map (escapeChar dollar) s)"

definition escapeStringValue :: "string \<Rightarrow> string" where
  "escapeStringValue v =
     (let v = replaceEscapedQuotes v;
          v = replaceQuotes v
      in replaceDollars v)"

text \<open>The sequences the first replacement looks for: a backslash right before a quote.\<close>

fun hasEscapedQuote :: "string \<Rightarrow> bool" where
  "hasEscapedQuote (a # b # cs) = ((a = backslash \<and> b = dquote) \<or> hasEscapedQuote (b # cs))"
| "hasEscapedQuote [a] = False"
| "hasEscapedQuote [] = False"

text \<open>What the two last replacements do to one character.\<close>

definition escapeQuoteDollar :: "char \<Rightarrow> string" where
  "escapeQuoteDollar c =
     (if c = dquote then [backslash, dquote]
      else if c = dollar then [backslash, dollar]
      else [c])"

section \<open>The wire contract with the graph service\<close>

text \<open>
  The client posts a script and reads a JSON envelope
  \<^verbatim>\<open>{status: {code: <int>}, result: {data: [...]}}\<close>. Every field may be absent. The rows
  of \<^verbatim>\<open>data\<close> are graph elements or traversal paths. A property value is text or an
  integer; a vertex property is read by the store as \<^verbatim>\<open>properties.<key>[0].value\<close>, an edge
  property as \<^verbatim>\<open>properties.<key>\<close>, and an edge without properties has no
  \<^verbatim>\<open>properties\<close> field.
\<close>

datatype pvalue = PStr string | PNum int

type_synonym props = "(string \<times> pvalue) list"

record vertex =
  vid :: nat
  vlabel :: string
  vprops :: props

record edge =
  eid :: nat
  elabel :: string
  eout :: nat
  ein :: nat
  eprops :: "props option"

datatype element = V vertex | E edge

datatype row = Single element | Path "element list"

record status =
  code :: "int option"

record resultT =
  data :: "row list option"

record responseBody =
  status :: "status option"
  result :: "resultT option"

text \<open>
  What the HTTP call gives back: it fails (network error, or an HTTP status outside 2xx,
  which the request library turns into a rejection), or it resolves without a body, or it
  resolves with an envelope.
\<close>

datatype outcome = Failed | NoBody | Replied responseBody

subsection \<open>Scripts\<close>

text \<open>
  The scripts are kept by template and parameters; \<open>render\<close> gives the text that the
  source builds for each. The objects the callers pass for a new vertex and a new edge:
\<close>

record vertexSpec =
  vsLabel :: string
  vsProps :: props

record edgeSpec =
  label :: string
  outV :: nat
  inV :: nat
  properties :: "props option"

datatype traversal =
    FindVertices string string string
  | FindEdgePath nat nat
  | FavoriteRecipes string nat
  | RecommendedRecipes string string string

datatype statement =
    Traversal traversal
  | AddVertex string props
  | AddEdge string nat nat props
  | SetEdgeProperties nat props

datatype script =
    OpenGraph string
  | CreateGraph string
  | InGraph string statement

function showNat :: "nat \<Rightarrow> string" where
  "showNat n = (if n < 10 then [char_of (48 + n)] else showNat (n div 10) @ [char_of (48 + n mod 10)])"
  by pat_completeness auto
termination
  by (relation "measure id") auto

definition showInt :: "int \<Rightarrow> string" where
  "showInt i = (if i < 0 then CHR ''-'' # showNat (nat (- i)) else showNat (nat i))"

text \<open>A value inside a template literal, \<^verbatim>\<open>`${value}`\<close>.\<close>

fun toStringJS :: "pvalue \<Rightarrow> string" where
  "toStringJS (PStr s) = s"
| "toStringJS (PNum n) = showInt n"

text \<open>
  The property clauses of \<^verbatim>\<open>createVertex\<close> and \<^verbatim>\<open>createEdge\<close>, and of \<^verbatim>\<open>updateEdge\<close>:
  a string value is quoted and escaped, any other value is inlined.
\<close>

fun renderValue :: "pvalue \<Rightarrow> string" where
  \<open>renderValue (PStr s) = ''"'' @ escapeStringValue s @ ''"''\<close>
| \<open>renderValue (PNum n) = showInt n\<close>

definition argClause :: "string \<times> pvalue \<Rightarrow> string" where
  \<open>argClause kv = '', "'' @ fst kv @ ''", '' @ renderValue (snd kv)\<close>

definition propertyClause :: "string \<times> pvalue \<Rightarrow> string" where
  \<open>propertyClause kv = ''.property("'' @ fst kv @ ''", '' @ renderValue (snd kv) @ '')''\<close>

fun renderTraversal :: "traversal \<Rightarrow> string" where
  \<open>renderTraversal (FindVertices l p v) =
     ''g.V().hasLabel("'' @ l @ ''").has("'' @ p @ ''", "'' @ v @ ''")''\<close>
| \<open>renderTraversal (FindEdgePath ov iv) =
     ''g.V('' @ showNat ov @ '').outE().inV().hasId('' @ showNat iv @ '').path()''\<close>
| \<open>renderTraversal (FavoriteRecipes name n) =
     ''g.V().hasLabel("person").has("name", "'' @ name
       @ ''").outE().order().by("count", decr).inV().hasLabel("recipe").limit(''
       @ showNat n @ '')''\<close>
| \<open>renderTraversal (RecommendedRecipes l key name) =
     ''g.V().hasLabel("'' @ l @ ''").has("name","'' @ key @ ''")''
       @ ''.in("has")''
       @ ''.inE().has("count",gt(1)).order().by("count", decr)''
       @ ''.outV().hasLabel("person").has("name",neq("'' @ name @ ''"))''
       @ ''.path()''\<close>

fun renderStatement :: "statement \<Rightarrow> string" where
  \<open>renderStatement (Traversal t) = ''def g = graph.traversal(); '' @ renderTraversal t\<close>
| \<open>renderStatement (AddVertex l ps) =
     ''graph.addVertex(T.label, "'' @ l @ ''"'' @ concat (map argClause ps) @ '');''\<close>
| \<open>renderStatement (AddEdge l ov iv ps) =
     ''def g = graph.traversal();''
       @ ''def outV = g.V('' @ showNat ov @ '').next();''
       @ ''def inV = g.V('' @ showNat iv @ '').next();''
       @ ''outV.addEdge("'' @ l @ ''", inV'' @ concat (map argClause ps) @ '');''\<close>
| \<open>renderStatement (SetEdgeProperties i ps) =
     ''def g = graph.traversal();''
       @ ''g.E("'' @ showNat i @ ''")'' @ concat (map propertyClause ps) @ '';''\<close>

fun render :: "script \<Rightarrow> string" where
  \<open>render (OpenGraph i) = ''def graph=ConfiguredGraphFactory.open("'' @ i @ ''");0;''\<close>
| \<open>render (CreateGraph i) = ''def graph=ConfiguredGraphFactory.create("'' @ i @ ''");0;''\<close>
| \<open>render (InGraph i st) =
     ''def graph=ConfiguredGraphFactory.open("'' @ i @ ''");'' @ renderStatement st\<close>

section \<open>Promises over an explicit transport\<close>

text \<open>
  Every operation of the client and of the store is a chain of promises around HTTP calls.
  The calls are sequential, so an operation is a function from the state of the remote
  service to a settled promise and the new state. The transport (\<^verbatim>\<open>rp\<close> in the source) is
  a parameter: it answers a script in a state of the service. It is handed the script by
  template and parameters; what goes over the wire is the text of the script, \<open>render\<close>,
  and a service that is handed this text makes a transport by \<open>posting\<close>.
\<close>

datatype error = TransportError | InvalidStatus | TypeError

datatype 'a promise = Resolved 'a | Rejected error

type_synonym ('s, 'a) action = "'s \<Rightarrow> 'a promise \<times> 's"

type_synonym 's transport = "script \<Rightarrow> 's \<Rightarrow> outcome \<times> 's"

definition resolve :: "'a \<Rightarrow> ('s, 'a) action" where
  "resolve a s = (Resolved a, s)"

definition reject :: "error \<Rightarrow> ('s, 'a) action" where
  "reject e s = (Rejected e, s)"

definition settle :: "'a promise \<Rightarrow> ('s, 'a) action" where
  "settle p s = (p, s)"

definition thenP :: "('s, 'a) action \<Rightarrow> ('a \<Rightarrow> ('s, 'b) action) \<Rightarrow> ('s, 'b) action" where
  "thenP m f s = (case m s of (Resolved a, s') \<Rightarrow> f a s' | (Rejected e, s') \<Rightarrow> (Rejected e, s'))"

definition catchP :: "('s, 'a) action \<Rightarrow> (error \<Rightarrow> ('s, 'a) action) \<Rightarrow> ('s, 'a) action" where
  "catchP m h s = (case m s of (Resolved a, s') \<Rightarrow> (Resolved a, s') | (Rejected e, s') \<Rightarrow> h e s')"

text \<open>\<^verbatim>\<open>rp(this.getPostOptions(body))\<close>: the body the promise resolves with may be missing.\<close>

definition request :: "'s transport \<Rightarrow> script \<Rightarrow> ('s, responseBody option) action" where
  "request rp q s =
     (case rp q s of
        (Failed, s') \<Rightarrow> (Rejected TransportError, s')
      | (NoBody, s') \<Rightarrow> (Resolved None, s')
      | (Replied b, s') \<Rightarrow> (Resolved (Some b), s'))"

text \<open>A transport that also records, in order, the scripts it was given.\<close>

definition logging :: "'s transport \<Rightarrow> ('s \<times> script list) transport" where
  "logging rp q sl = (case rp q (fst sl) of (out, s') \<Rightarrow> (out, (s', snd sl @ [q])))"

section \<open>The script execution client\<close>

text \<open>
  The values the status test can produce. In JavaScript \<^verbatim>\<open>a && b\<close> is \<^verbatim>\<open>a\<close> when \<^verbatim>\<open>a\<close>
  is falsy and \<^verbatim>\<open>b\<close> otherwise, so
  \<^verbatim>\<open>responseBody.status && responseBody.status.code && responseBody.status.code == 200\<close>
  is \<^verbatim>\<open>undefined\<close> when the status or its code is absent, \<^verbatim>\<open>0\<close> when the code is 0, and
  the boolean of the comparison otherwise.
\<close>

datatype jsvalue = JUndefined | JBool bool | JNum int

fun truthy :: "jsvalue \<Rightarrow> bool" where
  "truthy JUndefined = False"
| "truthy (JBool b) = b"
| "truthy (JNum n) = (n \<noteq> 0)"

definition statusCheck :: "responseBody \<Rightarrow> jsvalue" where
  "statusCheck responseBody =
     (case status responseBody of
        None \<Rightarrow> JUndefined
      | Some st \<Rightarrow>
          (case code st of
             None \<Rightarrow> JUndefined
           | Some c \<Rightarrow> if c = 0 then JNum 0 else JBool (c = 200)))"

text \<open>Reading a field of a missing body throws a TypeError inside the \<^verbatim>\<open>then\<close> handler.\<close>

definition checkedStatus :: "responseBody option \<Rightarrow> ('s, jsvalue) action" where
  "checkedStatus body = (case body of None \<Rightarrow> reject TypeError | Some b \<Rightarrow> resolve (statusCheck b))"

definition graphExists :: "'s transport \<Rightarrow> string \<Rightarrow> ('s, jsvalue) action" where
  "graphExists rp i =
     catchP (thenP (request rp (OpenGraph i)) checkedStatus)
       (\<lambda>_. resolve (JBool False))"

definition getOrCreateGraph :: "'s transport \<Rightarrow> string \<Rightarrow> ('s, jsvalue) action" where
  "getOrCreateGraph rp i =
     thenP (graphExists rp i)
       (\<lambda>exists. if truthy exists then resolve (JBool True)
                 else thenP (request rp (CreateGraph i)) checkedStatus)"

text \<open>The client instance: the graph its scripts open, unset until \<^verbatim>\<open>setGraphId\<close>.\<close>

record client =
  graphId :: "string option"

definition setGraphId :: "client \<Rightarrow> string \<Rightarrow> client" where
  "setGraphId c i = c\<lparr>graphId := Some i\<rparr>"

definition graphIdText :: "client \<Rightarrow> string" where
  "graphIdText c = (case graphId c of None \<Rightarrow> ''undefined'' | Some i \<Rightarrow> i)"

definition runGremlinQuery :: "'s transport \<Rightarrow> client \<Rightarrow> statement \<Rightarrow> ('s, responseBody) action" where
  "runGremlinQuery rp c gremlinQuery =
     thenP (request rp (InGraph (graphIdText c) gremlinQuery))
       (\<lambda>body. case body of
                 None \<Rightarrow> reject TypeError
               | Some responseBody \<Rightarrow>
                   if truthy (statusCheck responseBody) then resolve responseBody
                   else reject InvalidStatus)"

text \<open>
  \<^verbatim>\<open>response.result && response.result.data && response.result.data.length > 0\<close>, and
  \<^verbatim>\<open>response.result.data[0]\<close> under that test, \<^verbatim>\<open>null\<close> otherwise.
\<close>

definition rowsOf :: "responseBody \<Rightarrow> row list" where
  "rowsOf response =
     (case result response of
        None \<Rightarrow> []
      | Some r \<Rightarrow> (case data r of None \<Rightarrow> [] | Some d \<Rightarrow> d))"

definition hasRows :: "responseBody \<Rightarrow> bool" where
  "hasRows response = (0 < length (rowsOf response))"

definition firstRow :: "responseBody \<Rightarrow> row option" where
  "firstRow response = (case rowsOf response of [] \<Rightarrow> None | r # _ \<Rightarrow> Some r)"

definition createVertex :: "'s transport \<Rightarrow> client \<Rightarrow> vertexSpec \<Rightarrow> ('s, row option) action" where
  "createVertex rp c vertex =
     thenP (runGremlinQuery rp c (AddVertex (vsLabel vertex) (vsProps vertex)))
       (\<lambda>response. resolve (firstRow response))"

definition createEdge ::
  "'s transport \<Rightarrow> client \<Rightarrow> string \<Rightarrow> nat \<Rightarrow> nat \<Rightarrow> props option \<Rightarrow> ('s, row option) action" where
  "createEdge rp c l ov iv ps =
     thenP (runGremlinQuery rp c (AddEdge l ov iv (case ps of None \<Rightarrow> [] | Some kvs \<Rightarrow> kvs)))
       (\<lambda>response. resolve (firstRow response))"

definition updateEdge :: "'s transport \<Rightarrow> client \<Rightarrow> nat \<Rightarrow> props \<Rightarrow> ('s, responseBody) action" where
  "updateEdge rp c i ps = runGremlinQuery rp c (SetEdgeProperties i ps)"

section \<open>The recipe graph store\<close>

subsection \<open>Graph helper methods\<close>

definition findVertex ::
  "'s transport \<Rightarrow> client \<Rightarrow> string \<Rightarrow> string \<Rightarrow> string \<Rightarrow> ('s, row option) action" where
  "findVertex rp c l propertyName propertyValue =
     thenP (runGremlinQuery rp c (Traversal (FindVertices l propertyName propertyValue)))
       (\<lambda>response. resolve (firstRow response))"

text \<open>\<^verbatim>\<open>`${vertex[uniquePropertyName]}`\<close>: the text of the property, or of \<^verbatim>\<open>undefined\<close>.\<close>

definition propertyText :: "vertexSpec \<Rightarrow> string \<Rightarrow> string" where
  "propertyText vertex k =
     (if k = ''label'' then vsLabel vertex
      else (case map_of (vsProps vertex) k of None \<Rightarrow> ''undefined'' | Some v \<Rightarrow> toStringJS v))"

definition addVertexIfNotExists ::
  "'s transport \<Rightarrow> client \<Rightarrow> vertexSpec \<Rightarrow> string \<Rightarrow> ('s, row option) action" where
  "addVertexIfNotExists rp c vertex uniquePropertyName =
     (let propertyValue = propertyText vertex uniquePropertyName
      in thenP (runGremlinQuery rp c
                 (Traversal (FindVertices (vsLabel vertex) uniquePropertyName propertyValue)))
           (\<lambda>response. if hasRows response then resolve (firstRow response)
                        else createVertex rp c vertex))"

definition addEdgeIfNotExists :: "'s transport \<Rightarrow> client \<Rightarrow> edgeSpec \<Rightarrow> ('s, row option) action" where
  "addEdgeIfNotExists rp c edge =
     thenP (runGremlinQuery rp c (Traversal (FindEdgePath (outV edge) (inV edge))))
       (\<lambda>response. if hasRows response then resolve (firstRow response)
                    else createEdge rp c (label edge) (outV edge) (inV edge) (properties edge))"

text \<open>
  \<^verbatim>\<open>addUpdateEdge\<close> resolves with what \<^verbatim>\<open>updateEdge\<close> or \<^verbatim>\<open>createEdge\<close> resolves with.
  The found edge is \<^verbatim>\<open>response.result.data[0].objects[1]\<close>; a first row that is not a path
  of at least two objects throws a TypeError there. The lookup traversal puts an edge at
  that place; for a vertex there (nothing the traversal can return) the embedding rejects
  as well. \<^verbatim>\<open>count + 1\<close> adds one to a number and appends \<^verbatim>\<open>1\<close> to a string.

  The numbers of JavaScript are IEEE 754 doubles, and the sum of two of them is the exact
  sum rounded to the nearest double, a tie going to the double with the even mantissa.
  The numbers of the embedding are the doubles that are integers; up to \<open>2 ^ 53\<close> in
  magnitude every integer is one, above that the doubles are the multiples of a power of
  two that leave 53 bits.
\<close>

datatype edgeOutcome = Updated responseBody | Created "row option"

fun truthyValue :: "pvalue \<Rightarrow> bool" where
  "truthyValue (PStr s) = (s \<noteq> [])"
| "truthyValue (PNum n) = (n \<noteq> 0)"

function bitLength :: "int \<Rightarrow> nat" where
  "bitLength n = (if n \<le> 0 then 0 else Suc (bitLength (n div 2)))"
  by pat_completeness auto
termination
  by (relation "measure nat") auto

declare bitLength.simps [simp del]

definition roundToDouble :: "int \<Rightarrow> int" where
  "roundToDouble x =
     (if \<bar>x\<bar> \<le> 2 ^ 53 then x
      else (let e = bitLength \<bar>x\<bar> - 53;
                q = \<bar>x\<bar> div 2 ^ e;
                r = \<bar>x\<bar> mod 2 ^ e;
                q' = (if 2 ^ e < 2 * r \<or> (2 * r = 2 ^ e \<and> odd q) then q + 1 else q)
            in sgn x * (q' * 2 ^ e)))"

fun plusOne :: "pvalue \<Rightarrow> pvalue" where
  "plusOne (PNum n) = PNum (roundToDouble (n + 1))"
| "plusOne (PStr s) = PStr (s @ ''1'')"

text \<open>\<^verbatim>\<open>properties[key] = value\<close>: an own key keeps its place, a new key goes last.\<close>

fun setProperty :: "string \<Rightarrow> pvalue \<Rightarrow> props \<Rightarrow> props" where
  "setProperty k v [] = [(k, v)]"
| "setProperty k v (p # ps) = (if fst p = k then (k, v) # ps else p # setProperty k v ps)"

definition incrementedProperties :: "edge \<Rightarrow> props" where
  "incrementedProperties found =
     (let ps = (case eprops found of None \<Rightarrow> [] | Some kvs \<Rightarrow> kvs);
          count = (case map_of ps ''count'' of
                     None \<Rightarrow> PNum 0
                   | Some v \<Rightarrow> if truthyValue v then v else PNum 0)
      in setProperty ''count'' (plusOne count) ps)"

definition addUpdateEdge :: "'s transport \<Rightarrow> client \<Rightarrow> edgeSpec \<Rightarrow> ('s, edgeOutcome) action" where
  "addUpdateEdge rp c edge =
     thenP (runGremlinQuery rp c (Traversal (FindEdgePath (outV edge) (inV edge))))
       (\<lambda>response.
          if hasRows response then
            (case firstRow response of
               Some (Path (_ # E found # _)) \<Rightarrow>
                 thenP (updateEdge rp c (eid found) (incrementedProperties found))
                   (\<lambda>b. resolve (Updated b))
             | _ \<Rightarrow> reject TypeError)
          else thenP (createEdge rp c (label edge) (outV edge) (inV edge) (properties edge))
                 (\<lambda>r. resolve (Created r)))"

subsection \<open>Users, ingredients, cuisines\<close>

text \<open>
  The vertex a caller holds is a row some earlier operation resolved with. Reading
  \<^verbatim>\<open>.id\<close> of \<^verbatim>\<open>null\<close> throws a TypeError; the embedding also rejects a row that is not a
  vertex, which no vertex lookup or creation returns.
\<close>

definition vertexOfRow :: "row option \<Rightarrow> ('s, vertex) action" where
  "vertexOfRow r = (case r of Some (Single (V v)) \<Rightarrow> resolve v | _ \<Rightarrow> reject TypeError)"

definition addUser :: "'s transport \<Rightarrow> client \<Rightarrow> string \<Rightarrow> ('s, row option) action" where
  "addUser rp c userId =
     addVertexIfNotExists rp c \<lparr>vsLabel = ''person'', vsProps = [(''name'', PStr userId)]\<rparr> ''name''"

text \<open>\<^verbatim>\<open>replace(/'/g, '\\\'')\<close> and \<^verbatim>\<open>replace(/\n/g, '\\\\n')\<close>.\<close>

definition escapeApostrophes :: "string \<Rightarrow> string" where
  "escapeApostrophes s = concat (map (\<lambda>ch. if ch = CHR 0x27 then [backslash, CHR 0x27] else [ch]) s)"

definition escapeNewlines :: "string \<Rightarrow> string" where
  "escapeNewlines s =
     concat (map (\<lambda>ch. if ch = CHR 0x0A then [backslash, backslash, CHR ''n''] else [ch]) s)"

definition selectsEdge :: "vertex \<Rightarrow> vertex \<Rightarrow> edgeSpec" where
  "selectsEdge fromVertex toVertex =
     \<lparr>label = ''selects'', outV = vid fromVertex, inV = vid toVertex,
      properties = Some [(''count'', PNum 1)]\<rparr>"

definition recordIngredientRequestForUser ::
  "'s transport \<Rightarrow> client \<Rightarrow> vertex \<Rightarrow> vertex \<Rightarrow> ('s, edgeOutcome) action" where
  "recordIngredientRequestForUser rp c ingredientVertex userVertex =
     addUpdateEdge rp c (selectsEdge userVertex ingredientVertex)"

definition recordCuisineRequestForUser ::
  "'s transport \<Rightarrow> client \<Rightarrow> vertex \<Rightarrow> vertex \<Rightarrow> ('s, edgeOutcome) action" where
  "recordCuisineRequestForUser rp c cuisineVertex userVertex =
     addUpdateEdge rp c (selectsEdge userVertex cuisineVertex)"

text \<open>\<open>matchingRecipes\<close> stands for the text \<^verbatim>\<open>JSON.stringify(matchingRecipes)\<close>.\<close>

definition addIngredient ::
  "'s transport \<Rightarrow> client \<Rightarrow> string \<Rightarrow> string \<Rightarrow> vertex \<Rightarrow> ('s, vertex) action" where
  "addIngredient rp c ingredientsStr matchingRecipes userVertex =
     thenP (addVertexIfNotExists rp c
              \<lparr>vsLabel = ''ingredient'',
               vsProps = [(''name'', PStr (getUniqueIngredientsName ingredientsStr)),
                          (''detail'', PStr (escapeApostrophes matchingRecipes))]\<rparr> ''name'')
       (\<lambda>r. thenP (vertexOfRow r)
          (\<lambda>vertex. thenP (recordIngredientRequestForUser rp c vertex userVertex)
             (\<lambda>_. resolve vertex)))"

definition addCuisine ::
  "'s transport \<Rightarrow> client \<Rightarrow> string \<Rightarrow> string \<Rightarrow> vertex \<Rightarrow> ('s, vertex) action" where
  "addCuisine rp c cuisine matchingRecipes userVertex =
     thenP (addVertexIfNotExists rp c
              \<lparr>vsLabel = ''cuisine'',
               vsProps = [(''name'', PStr (getUniqueCuisineName cuisine)),
                          (''detail'', PStr (escapeApostrophes matchingRecipes))]\<rparr> ''name'')
       (\<lambda>r. thenP (vertexOfRow r)
          (\<lambda>vertex. thenP (recordCuisineRequestForUser rp c vertex userVertex)
             (\<lambda>_. resolve vertex)))"

subsection \<open>Recipes\<close>

definition recordRecipeRequestForUser ::
  "'s transport \<Rightarrow> client \<Rightarrow> vertex \<Rightarrow> vertex option \<Rightarrow> vertex \<Rightarrow> ('s, row option) action" where
  "recordRecipeRequestForUser rp c recipeVertex ingredientCuisineVertex userVertex =
     thenP (addUpdateEdge rp c (selectsEdge userVertex recipeVertex))
       (\<lambda>_. case ingredientCuisineVertex of
               Some origin \<Rightarrow>
                 thenP (addUpdateEdge rp c (selectsEdge origin recipeVertex))
                   (\<lambda>_. addEdgeIfNotExists rp c
                          \<lparr>label = ''has'', outV = vid recipeVertex, inV = vid origin,
                           properties = None\<rparr>)
             | None \<Rightarrow> resolve None)"

definition addRecipe ::
  "'s transport \<Rightarrow> client \<Rightarrow> string \<Rightarrow> string \<Rightarrow> string \<Rightarrow> vertex option \<Rightarrow> vertex
     \<Rightarrow> ('s, vertex) action" where
  "addRecipe rp c recipeId recipeTitle recipeDetail ingredientCuisineVertex userVertex =
     thenP (addVertexIfNotExists rp c
              \<lparr>vsLabel = ''recipe'',
               vsProps = [(''name'', PStr (getUniqueRecipeName recipeId)),
                          (''title'', PStr (escapeApostrophes (trimJS recipeTitle))),
                          (''detail'', PStr (escapeNewlines (escapeApostrophes recipeDetail)))]\<rparr>
              ''name'')
       (\<lambda>r. thenP (vertexOfRow r)
          (\<lambda>recipeVertex.
             thenP (recordRecipeRequestForUser rp c recipeVertex ingredientCuisineVertex userVertex)
               (\<lambda>_. resolve recipeVertex)))"

subsection \<open>Favourite recipes\<close>

record favoriteRecipe =
  favId :: pvalue
  favTitle :: pvalue

text \<open>
  \<^verbatim>\<open>{id: recipeVertex.properties.name[0].value, title: recipeVertex.properties.title[0].value}\<close>:
  a missing property throws a TypeError. The traversal returns vertices; for a row of
  another kind the embedding rejects as well.
\<close>

definition favoriteOfRow :: "row \<Rightarrow> favoriteRecipe option" where
  "favoriteOfRow r =
     (case r of
        Single (V recipeVertex) \<Rightarrow>
          (case map_of (vprops recipeVertex) ''name'' of
             None \<Rightarrow> None
           | Some n \<Rightarrow>
               (case map_of (vprops recipeVertex) ''title'' of
                  None \<Rightarrow> None
                | Some t \<Rightarrow> Some \<lparr>favId = n, favTitle = t\<rparr>))
      | _ \<Rightarrow> None)"

fun favoriteRows :: "row list \<Rightarrow> favoriteRecipe list promise" where
  "favoriteRows [] = Resolved []"
| "favoriteRows (r # rs) =
     (case favoriteOfRow r of
        None \<Rightarrow> Rejected TypeError
      | Some recipe \<Rightarrow>
          (case favoriteRows rs of
             Resolved recipes \<Rightarrow> Resolved (recipe # recipes)
           | Rejected e \<Rightarrow> Rejected e))"

definition findFavoriteRecipesForUser ::
  "'s transport \<Rightarrow> client \<Rightarrow> vertex \<Rightarrow> nat \<Rightarrow> ('s, favoriteRecipe list) action" where
  "findFavoriteRecipesForUser rp c userVertex count' =
     (case map_of (vprops userVertex) ''name'' of
        None \<Rightarrow> reject TypeError
      | Some name \<Rightarrow>
          thenP (runGremlinQuery rp c (Traversal (FavoriteRecipes (toStringJS name) count')))
            (\<lambda>response. if hasRows response then settle (favoriteRows (rowsOf response))
                         else resolve []))"

subsection \<open>Recommended recipes\<close>

record recommendedRecipe =
  recId :: pvalue
  recTitle :: pvalue
  recommendedUserCount :: nat

text \<open>
  \<^verbatim>\<open>recipeHash\<close> is a plain object, \<^verbatim>\<open>{}\<close>: reading \<^verbatim>\<open>recipeHash[recipeId]\<close> finds the
  object's own property of that name, and otherwise what \<^verbatim>\<open>Object.prototype\<close> has under
  the name. All of the latter are functions, or the prototype object itself for
  \<^verbatim>\<open>__proto__\<close>, so they are truthy. The own properties hold the recipe objects that were
  pushed to \<^verbatim>\<open>recipes\<close>; the embedding keeps the index of the shared object.
\<close>

definition objectPrototypeKeys :: "string list" where
  "objectPrototypeKeys =
     [''constructor'', ''__defineGetter__'', ''__defineSetter__'', ''hasOwnProperty'',
      ''__lookupGetter__'', ''__lookupSetter__'', ''isPrototypeOf'', ''propertyIsEnumerable'',
      ''toString'', ''valueOf'', ''__proto__'', ''toLocaleString'']"

datatype hashEntry = Own nat | Inherited | Missing

definition lookupHash :: "(string \<rightharpoonup> nat) \<Rightarrow> string \<Rightarrow> hashEntry" where
  "lookupHash recipeHash k =
     (case recipeHash k of
        Some i \<Rightarrow> Own i
      | None \<Rightarrow> if k \<in> set objectPrototypeKeys then Inherited else Missing)"

text \<open>
  One round of the loop over the paths. \<^verbatim>\<open>path.objects[1]\<close> of a row that is not a path of
  at least two objects throws a TypeError, as does a missing \<^verbatim>\<open>name\<close>, and a missing
  \<^verbatim>\<open>title\<close> when the recipe object is built. The traversal puts the recipe vertex at that
  place; for an edge there the embedding rejects as well. Incrementing the count of an
  inherited entry writes to that function or prototype object and leaves \<^verbatim>\<open>recipes\<close> as it
  is. The limit is a natural number.
\<close>

type_synonym recommendState = "recommendedRecipe list \<times> (string \<rightharpoonup> nat)"

definition recommendStep :: "nat \<Rightarrow> row \<Rightarrow> recommendState \<Rightarrow> recommendState promise" where
  "recommendStep count' path st =
     (let recipes = fst st; recipeHash = snd st
      in case path of
           Path (_ # V recipeVertex # _) \<Rightarrow>
             (case map_of (vprops recipeVertex) ''name'' of
                None \<Rightarrow> Rejected TypeError
              | Some recipeId \<Rightarrow>
                  (case lookupHash recipeHash (toStringJS recipeId) of
                     Missing \<Rightarrow>
                       if length recipes \<ge> count' then Resolved (recipes, recipeHash)
                       else (case map_of (vprops recipeVertex) ''title'' of
                               None \<Rightarrow> Rejected TypeError
                             | Some t \<Rightarrow>
                                 Resolved
                                   (recipes @ [\<lparr>recId = recipeId, recTitle = t,
                                                recommendedUserCount = 1\<rparr>],
                                    recipeHash(toStringJS recipeId \<mapsto> length recipes)))
                   | Own i \<Rightarrow>
                       Resolved
                         (recipes[i := (recipes ! i)
                                    \<lparr>recommendedUserCount :=
                                       recommendedUserCount (recipes ! i) + 1\<rparr>],
                          recipeHash)
                   | Inherited \<Rightarrow> Resolved (recipes, recipeHash)))
         | _ \<Rightarrow> Rejected TypeError)"

fun recommendLoop :: "nat \<Rightarrow> row list \<Rightarrow> recommendState \<Rightarrow> recommendState promise" where
  "recommendLoop count' [] st = Resolved st"
| "recommendLoop count' (path # paths) st =
     (case recommendStep count' path st of
        Resolved st' \<Rightarrow> recommendLoop count' paths st'
      | Rejected e \<Rightarrow> Rejected e)"

definition recommendedOf :: "nat \<Rightarrow> row list \<Rightarrow> recommendedRecipe list promise" where
  "recommendedOf count' paths =
     (case recommendLoop count' paths ([], Map.empty) of
        Resolved st \<Rightarrow> Resolved (fst st)
      | Rejected e \<Rightarrow> Rejected e)"

definition getRecommendedRecipes ::
  "'s transport \<Rightarrow> client \<Rightarrow> traversal \<Rightarrow> nat \<Rightarrow> ('s, recommendedRecipe list) action" where
  "getRecommendedRecipes rp c query count' =
     thenP (runGremlinQuery rp c (Traversal query))
       (\<lambda>response. if hasRows response then settle (recommendedOf count' (rowsOf response))
                    else resolve [])"

definition findRecommendedRecipesForIngredient ::
  "'s transport \<Rightarrow> client \<Rightarrow> string \<Rightarrow> vertex \<Rightarrow> nat \<Rightarrow> ('s, recommendedRecipe list) action" where
  "findRecommendedRecipesForIngredient rp c ingredientsStr userVertex count' =
     (case map_of (vprops userVertex) ''name'' of
        None \<Rightarrow> reject TypeError
      | Some name \<Rightarrow>
          getRecommendedRecipes rp c
            (RecommendedRecipes ''ingredient'' (getUniqueIngredientsName ingredientsStr)
               (toStringJS name))
            count')"

definition findRecommendedRecipesForCuisine ::
  "'s transport \<Rightarrow> client \<Rightarrow> string \<Rightarrow> vertex \<Rightarrow> nat \<Rightarrow> ('s, recommendedRecipe list) action" where
  "findRecommendedRecipesForCuisine rp c cuisine userVertex count' =
     (case map_of (vprops userVertex) ''name'' of
        None \<Rightarrow> reject TypeError
      | Some name \<Rightarrow>
          getRecommendedRecipes rp c
            (RecommendedRecipes ''cuisine'' (getUniqueCuisineName cuisine) (toStringJS name))
            count')"

section \<open>A reference model of the graph service\<close>

text \<open>
  Modelled from the spec: the remote graph service, a collaborator outside the repository,
  after the data model and the script templates of the specification (vertices and edges
  with labels and properties; open or create a named graph, add a vertex, add an edge
  between two vertices found by identifier, find vertices by label and property, find the
  paths over an edge between two vertices, order edges by a numeric property, filter by
  it). What the store's operations add up to over several calls depends on what the
  service does with the scripts, so the statements about stored vertices and edges are
  made against this model: one property graph, its vertices and edges in creation order,
  and fresh identifiers from a counter. First comes what the service does with a script
  once it is read, the script given by its template and the values its text denotes
  (\<open>serve\<close>); then the reading of the text, and the service that is handed the text
  (\<open>service\<close>). A script that fails on the service (a missing endpoint vertex, ordering
  by a property an edge does not have, a text that is no script) is answered with
  HTTP 500, which the request library turns into a rejection.
\<close>

record graph =
  vertices :: "vertex list"
  edges :: "edge list"
  nextId :: nat

definition okBody :: "row list \<Rightarrow> responseBody" where
  "okBody rows = \<lparr>status = Some \<lparr>code = Some 200\<rparr>, result = Some \<lparr>data = Some rows\<rparr>\<rparr>"

definition ok :: "row list \<Rightarrow> outcome" where
  "ok rows = Replied (okBody rows)"

definition hasValue :: "vertex \<Rightarrow> string \<Rightarrow> string \<Rightarrow> bool" where
  "hasValue v k x = (map_of (vprops v) k = Some (PStr x))"

definition edgeCount :: "edge \<Rightarrow> int option" where
  "edgeCount e =
     (case eprops e of
        None \<Rightarrow> None
      | Some ps \<Rightarrow> (case map_of ps ''count'' of Some (PNum n) \<Rightarrow> Some n | _ \<Rightarrow> None))"

definition countKey :: "edge \<Rightarrow> int" where
  "countKey e = (case edgeCount e of None \<Rightarrow> 0 | Some n \<Rightarrow> - n)"

definition edgesBetween :: "graph \<Rightarrow> nat \<Rightarrow> nat \<Rightarrow> edge list" where
  "edgesBetween g ov iv = filter (\<lambda>e. eout e = ov \<and> ein e = iv) (edges g)"

text \<open>The traversals; \<open>None\<close> when the script fails.\<close>

fun run :: "traversal \<Rightarrow> graph \<Rightarrow> row list option" where
  "run (FindVertices l p x) g =
     Some (map (\<lambda>v. Single (V v)) (filter (\<lambda>v. vlabel v = l \<and> hasValue v p x) (vertices g)))"
| "run (FindEdgePath ov iv) g =
     Some [Path [V a, E e, V b].
             a \<leftarrow> vertices g, vid a = ov,
             e \<leftarrow> edgesBetween g ov iv,
             b \<leftarrow> vertices g, vid b = iv]"
| "run (FavoriteRecipes name n) g =
     (let outE = [e. p \<leftarrow> vertices g, vlabel p = ''person'' \<and> hasValue p ''name'' name,
                     e \<leftarrow> edges g, eout e = vid p]
      in if list_all (\<lambda>e. edgeCount e \<noteq> None) outE
         then Some (map (\<lambda>v. Single (V v))
                 (take n [r. e \<leftarrow> sort_key countKey outE,
                             r \<leftarrow> vertices g, vid r = ein e \<and> vlabel r = ''recipe'']))
         else None)"
| "run (RecommendedRecipes l k name) g =
     (let inE = [(a, r, e).
                   a \<leftarrow> vertices g, vlabel a = l \<and> hasValue a ''name'' k,
                   h \<leftarrow> edges g, ein h = vid a \<and> elabel h = ''has'',
                   r \<leftarrow> vertices g, vid r = eout h,
                   e \<leftarrow> edges g,
                   ein e = vid r \<and> (case edgeCount e of None \<Rightarrow> False | Some n \<Rightarrow> 1 < n)]
      in Some [Path [V a, V r, E e, V p].
                 (a, r, e) \<leftarrow> sort_key (\<lambda>t. countKey (snd (snd t))) inE,
                 p \<leftarrow> vertices g,
                 vid p = eout e \<and> vlabel p = ''person''
                   \<and> (case map_of (vprops p) ''name'' of
                         None \<Rightarrow> False
                       | Some x \<Rightarrow> x \<noteq> PStr name)])"

definition setProperties :: "props \<Rightarrow> edge \<Rightarrow> edge" where
  "setProperties ps e =
     (let old = (case eprops e of None \<Rightarrow> [] | Some kvs \<Rightarrow> kvs);
          new = foldl (\<lambda>acc kv. setProperty (fst kv) (snd kv) acc) old ps
      in e\<lparr>eprops := (if new = [] then None else Some new)\<rparr>)"

fun exec :: "statement \<Rightarrow> graph \<Rightarrow> outcome \<times> graph" where
  "exec (Traversal t) g = (case run t g of None \<Rightarrow> (Failed, g) | Some rows \<Rightarrow> (ok rows, g))"
| "exec (AddVertex l ps) g =
     (let v = \<lparr>vid = nextId g, vlabel = l, vprops = ps\<rparr>
      in (ok [Single (V v)], g\<lparr>vertices := vertices g @ [v], nextId := Suc (nextId g)\<rparr>))"
| "exec (AddEdge l ov iv ps) g =
     (if ov \<in> set (map vid (vertices g)) \<and> iv \<in> set (map vid (vertices g))
      then (let e = \<lparr>eid = nextId g, elabel = l, eout = ov, ein = iv,
                      eprops = (if ps = [] then None else Some ps)\<rparr>
            in (ok [Single (E e)], g\<lparr>edges := edges g @ [e], nextId := Suc (nextId g)\<rparr>))
      else (Failed, g))"
| "exec (SetEdgeProperties i ps) g =
     (let es = map (\<lambda>e. if eid e = i then setProperties ps e else e) (edges g)
      in (ok (map (\<lambda>e. Single (E e)) (filter (\<lambda>e. eid e = i) es)), g\<lparr>edges := es\<rparr>))"

fun serve :: "graph transport" where
  "serve (OpenGraph i) g = (ok [], g)"
| "serve (CreateGraph i) g = (ok [], g)"
| "serve (InGraph i st) g = exec st g"

subsection \<open>The text of a script\<close>

text \<open>
  Modelled from the spec: what the service receives is the text of a script, and what it
  does depends on what that text denotes. The reader below takes the text of the script
  templates apart again. A string literal of the script language stands between double
  quotes; in it a backslash with the next character stands for one character (a backslash,
  a quote, a dollar sign, a line feed for \<^verbatim>\<open>n\<close>, and so on), and a dollar sign that is not
  escaped starts an interpolation. The reader does not evaluate interpolations and knows
  no other scripts than those of the templates: it refuses such a text, and a text with a
  literal that does not end or holds a line break. A number is a decimal numeral. The
  property clauses are read one after the other, at most as many as the text has
  characters.
\<close>

fun prefixed :: "string \<Rightarrow> string \<Rightarrow> string option" where
  "prefixed [] s = Some s"
| "prefixed (p # ps) [] = None"
| "prefixed (p # ps) (ch # s) = (if p = ch then prefixed ps s else None)"

definition unescaped :: "char \<Rightarrow> char option" where
  "unescaped ch =
     (if ch = backslash \<or> ch = dquote \<or> ch = dollar \<or> ch = CHR 0x27 then Some ch
      else if ch = CHR ''n'' then Some (CHR 0x0A)
      else if ch = CHR ''r'' then Some (CHR 0x0D)
      else if ch = CHR ''t'' then Some (CHR 0x09)
      else if ch = CHR ''b'' then Some (CHR 0x08)
      else if ch = CHR ''f'' then Some (CHR 0x0C)
      else None)"

fun stringLiteral :: "string \<Rightarrow> (string \<times> string) option" where
  "stringLiteral [] = None"
| "stringLiteral (ch # s) =
     (if ch = dquote then Some ([], s)
      else if ch = dollar \<or> ch = CHR 0x0A \<or> ch = CHR 0x0D then None
      else if ch = backslash then
        (case s of
           [] \<Rightarrow> None
         | e # s' \<Rightarrow>
             (case unescaped e of
                None \<Rightarrow> None
              | Some x \<Rightarrow> map_option (\<lambda>(t, rest). (x # t, rest)) (stringLiteral s')))
      else map_option (\<lambda>(t, rest). (ch # t, rest)) (stringLiteral s))"

definition isDigit :: "char \<Rightarrow> bool" where
  "isDigit ch = (48 \<le> (of_char ch :: nat) \<and> (of_char ch :: nat) \<le> 57)"

definition digitValue :: "char \<Rightarrow> nat" where
  "digitValue ch = of_char ch - 48"

definition natural :: "string \<Rightarrow> (nat \<times> string) option" where
  "natural s =
     (let ds = takeWhile isDigit s
      in if ds = [] \<or> (hd ds = CHR ''0'' \<and> 1 < length ds) then None
         else Some (foldl (\<lambda>n ch. 10 * n + digitValue ch) 0 ds, dropWhile isDigit s))"

definition propertyValue :: "string \<Rightarrow> (pvalue \<times> string) option" where
  "propertyValue s =
     (case s of
        [] \<Rightarrow> None
      | ch # s' \<Rightarrow>
          if ch = dquote then map_option (\<lambda>(t, rest). (PStr t, rest)) (stringLiteral s')
          else if ch = CHR ''-'' then map_option (\<lambda>(n, rest). (PNum (- int n), rest)) (natural s')
          else map_option (\<lambda>(n, rest). (PNum (int n), rest)) (natural s))"

fun clauses :: "string \<Rightarrow> string \<Rightarrow> nat \<Rightarrow> string \<Rightarrow> (props \<times> string) option" where
  "clauses opening closing 0 s = None"
| "clauses opening closing (Suc n) s =
     (case prefixed opening s of
        None \<Rightarrow> Some ([], s)
      | Some s1 \<Rightarrow>
          do {
            (k, s2) \<leftarrow> stringLiteral s1;
            s3 \<leftarrow> prefixed '', '' s2;
            (v, s4) \<leftarrow> propertyValue s3;
            s5 \<leftarrow> prefixed closing s4;
            (ps, rest) \<leftarrow> clauses opening closing n s5;
            Some ((k, v) # ps, rest)
          })"

definition orElse :: "'a option \<Rightarrow> 'a option \<Rightarrow> 'a option" where
  "orElse x y = (case x of None \<Rightarrow> y | Some _ \<Rightarrow> x)"

definition parseTraversal :: "string \<Rightarrow> traversal option" where
  \<open>parseTraversal s =
     orElse
       (do {
          s1 \<leftarrow> prefixed ''g.V('' s;
          (ov, s2) \<leftarrow> natural s1;
          s3 \<leftarrow> prefixed '').outE().inV().hasId('' s2;
          (iv, s4) \<leftarrow> natural s3;
          if s4 = '').path()'' then Some (FindEdgePath ov iv) else None
        })
       (do {
          s1 \<leftarrow> prefixed ''g.V().hasLabel("'' s;
          (l, s2) \<leftarrow> stringLiteral s1;
          orElse
            (do {
               s3 \<leftarrow> prefixed '').has("'' s2;
               (p, s4) \<leftarrow> stringLiteral s3;
               s5 \<leftarrow> prefixed '', "'' s4;
               (x, s6) \<leftarrow> stringLiteral s5;
               s7 \<leftarrow> prefixed '')'' s6;
               if s7 = [] then Some (FindVertices l p x)
               else if l = ''person'' \<and> p = ''name'' then
                 do {
                   s8 \<leftarrow> prefixed
                     ''.outE().order().by("count", decr).inV().hasLabel("recipe").limit('' s7;
                   (n, s9) \<leftarrow> natural s8;
                   if s9 = '')'' then Some (FavoriteRecipes x n) else None
                 }
               else None
             })
            (do {
               s3 \<leftarrow> prefixed '').has("name","'' s2;
               (k, s4) \<leftarrow> stringLiteral s3;
               s5 \<leftarrow> prefixed
                 ('').in("has")'' @ ''.inE().has("count",gt(1)).order().by("count", decr)''
                    @ ''.outV().hasLabel("person").has("name",neq("'') s4;
               (name, s6) \<leftarrow> stringLiteral s5;
               if s6 = ''))'' @ ''.path()'' then Some (RecommendedRecipes l k name) else None
             })
        })\<close>

definition parseStatement :: "string \<Rightarrow> statement option" where
  \<open>parseStatement s =
     orElse
       (do {
          s1 \<leftarrow> prefixed ''def g = graph.traversal();'' s;
          orElse
            (do { s2 \<leftarrow> prefixed '' '' s1; map_option Traversal (parseTraversal s2) })
            (orElse
               (do {
                  s2 \<leftarrow> prefixed ''def outV = g.V('' s1;
                  (ov, s3) \<leftarrow> natural s2;
                  s4 \<leftarrow> prefixed '').next();def inV = g.V('' s3;
                  (iv, s5) \<leftarrow> natural s4;
                  s6 \<leftarrow> prefixed '').next();outV.addEdge("'' s5;
                  (l, s7) \<leftarrow> stringLiteral s6;
                  s8 \<leftarrow> prefixed '', inV'' s7;
                  (ps, s9) \<leftarrow> clauses '', "'' [] (Suc (length s8)) s8;
                  if s9 = '');'' then Some (AddEdge l ov iv ps) else None
                })
               (do {
                  s2 \<leftarrow> prefixed ''g.E("'' s1;
                  (i, s3) \<leftarrow> stringLiteral s2;
                  (n, r) \<leftarrow> natural i;
                  s4 \<leftarrow> prefixed '')'' s3;
                  (ps, s5) \<leftarrow> clauses ''.property("'' '')'' (Suc (length s4)) s4;
                  if r = [] \<and> s5 = '';'' then Some (SetEdgeProperties n ps) else None
                }))
        })
       (do {
          s1 \<leftarrow> prefixed ''graph.addVertex(T.label, "'' s;
          (l, s2) \<leftarrow> stringLiteral s1;
          (ps, s3) \<leftarrow> clauses '', "'' [] (Suc (length s2)) s2;
          if s3 = '');'' then Some (AddVertex l ps) else None
        })\<close>

definition parseScript :: "string \<Rightarrow> script option" where
  \<open>parseScript s =
     do {
       s1 \<leftarrow> prefixed ''def graph=ConfiguredGraphFactory.'' s;
       orElse
         (do {
            s2 \<leftarrow> prefixed ''open("'' s1;
            (i, s3) \<leftarrow> stringLiteral s2;
            s4 \<leftarrow> prefixed '');'' s3;
            if s4 = ''0;'' then Some (OpenGraph i) else map_option (InGraph i) (parseStatement s4)
          })
         (do {
            s2 \<leftarrow> prefixed ''create("'' s1;
            (i, s3) \<leftarrow> stringLiteral s2;
            if s3 = '');0;'' then Some (CreateGraph i) else None
          })
     }\<close>

text \<open>
  The service answers the script that the text denotes, and fails (HTTP 500) on a text it
  cannot read. A transport that posts the text of the script to a service:
\<close>

definition service :: "string \<Rightarrow> graph \<Rightarrow> outcome \<times> graph" where
  "service text g = (case parseScript text of None \<Rightarrow> (Failed, g) | Some q \<Rightarrow> serve q g)"

definition posting :: "(string \<Rightarrow> 's \<Rightarrow> outcome \<times> 's) \<Rightarrow> 's transport" where
  "posting srv q s = srv (render q) s"

text \<open>
  The graphs the service can be in: identifiers are unique and below the counter, and
  every edge joins two vertices of the graph.
\<close>

definition wellFormed :: "graph \<Rightarrow> bool" where
  "wellFormed g =
     (distinct (map vid (vertices g)) \<and> distinct (map eid (edges g))
      \<and> list_all (\<lambda>v. vid v < nextId g) (vertices g)
      \<and> list_all (\<lambda>e. eid e < nextId g \<and> eout e \<in> set (map vid (vertices g))
                       \<and> ein e \<in> set (map vid (vertices g))) (edges g))"

text \<open>An operation called again and again, each call after the one before has settled.\<close>

fun repeatedly :: "nat \<Rightarrow> ('s, 'a) action \<Rightarrow> 's \<Rightarrow> bool \<times> 's" where
  "repeatedly 0 m s = (True, s)"
| "repeatedly (Suc n) m s =
     (case m s of
        (Resolved _, s') \<Rightarrow> repeatedly n m s'
      | (Rejected _, s') \<Rightarrow> (False, s'))"

section \<open>Vocabulary of the statements\<close>

text \<open>A reply whose status code is 200, and a reply without rows.\<close>

definition status200 :: "responseBody \<Rightarrow> bool" where
  "status200 b = (case status b of None \<Rightarrow> False | Some st \<Rightarrow> code st = Some 200)"

definition noData :: "responseBody \<Rightarrow> bool" where
  "noData b =
     (case result b of
        None \<Rightarrow> True
      | Some r \<Rightarrow> (case data r of None \<Rightarrow> True | Some d \<Rightarrow> d = []))"

text \<open>The recipe a favourite row stands for, when the row has a name and a title.\<close>

definition hasNameAndTitle :: "vertex \<Rightarrow> bool" where
  "hasNameAndTitle v =
     (map_of (vprops v) ''name'' \<noteq> None \<and> map_of (vprops v) ''title'' \<noteq> None)"

definition idAndTitle :: "vertex \<Rightarrow> favoriteRecipe" where
  "idAndTitle v =
     \<lparr>favId = the (map_of (vprops v) ''name''), favTitle = the (map_of (vprops v) ''title'')\<rparr>"

text \<open>A transport that always gives the same reply.\<close>

definition always :: "outcome \<Rightarrow> unit transport" where
  "always out q s = (out, s)"

text \<open>
  The recommendation paths as the claim reads them. A path gives the recipe's name and
  title; its key is the name as a property key. The keys in the order of their first
  occurrence; the number of paths with a key; the recipe that is emitted for a key; and the
  result the claim describes: the first \<open>n\<close> distinct keys, each with the name and title
  of its first path and the number of its paths.
\<close>

definition recipeEntry :: "row \<Rightarrow> (pvalue \<times> pvalue) option" where
  "recipeEntry p =
     (case p of
        Path (_ # V recipeVertex # _) \<Rightarrow>
          (case map_of (vprops recipeVertex) ''name'' of
             None \<Rightarrow> None
           | Some n \<Rightarrow>
               (case map_of (vprops recipeVertex) ''title'' of
                  None \<Rightarrow> None
                | Some t \<Rightarrow> Some (n, t)))
      | _ \<Rightarrow> None)"

definition entryKey :: "pvalue \<times> pvalue \<Rightarrow> string" where
  "entryKey e = toStringJS (fst e)"

fun firstSeen :: "string list \<Rightarrow> string list" where
  "firstSeen [] = []"
| "firstSeen (k # ks) = k # filter (\<lambda>x. x \<noteq> k) (firstSeen ks)"

definition occurrences :: "string \<Rightarrow> (pvalue \<times> pvalue) list \<Rightarrow> nat" where
  "occurrences k es = length (filter (\<lambda>e. entryKey e = k) es)"

definition emitted :: "(pvalue \<times> pvalue) list \<Rightarrow> string \<Rightarrow> recommendedRecipe" where
  "emitted es k =
     \<lparr>recId = fst (hd (filter (\<lambda>e. entryKey e = k) es)),
      recTitle = snd (hd (filter (\<lambda>e. entryKey e = k) es)),
      recommendedUserCount = occurrences k es\<rparr>"

definition expectedRecipes :: "nat \<Rightarrow> (pvalue \<times> pvalue) list \<Rightarrow> recommendedRecipe list" where
  "expectedRecipes n es = map (emitted es) (take n (firstSeen (map entryKey es)))"

text \<open>The key of an emitted recipe, and the recipe with more occurrences counted.\<close>

definition recipeKey :: "recommendedRecipe \<Rightarrow> string" where
  "recipeKey r = toStringJS (recId r)"

definition counted :: "(pvalue \<times> pvalue) list \<Rightarrow> recommendedRecipe \<Rightarrow> recommendedRecipe" where
  "counted es r =
     r\<lparr>recommendedUserCount := recommendedUserCount r + occurrences (recipeKey r) es\<rparr>"

text \<open>
  The hash and the list go together: the hash has exactly the keys of the emitted recipes,
  each with the place of its recipe in the list.
\<close>

definition hashOf :: "recommendedRecipe list \<Rightarrow> (string \<rightharpoonup> nat) \<Rightarrow> bool" where
  "hashOf rs h =
     (distinct (map recipeKey rs)
      \<and> (\<forall>k i. (h k = Some i) = (i < length rs \<and> recipeKey (rs ! i) = k)))"

text \<open>Example data: a client bound to a graph, and a recommendation path for a recipe name.\<close>

definition exampleClient :: client where
  "exampleClient = \<lparr>graphId = Some ''recipes''\<rparr>"

definition examplePath :: "string \<Rightarrow> row" where
  "examplePath n =
     Path [V \<lparr>vid = 1, vlabel = ''ingredient'', vprops = [(''name'', PStr ''basil'')]\<rparr>,
           V \<lparr>vid = 3, vlabel = ''recipe'',
              vprops = [(''name'', PStr n), (''title'', PStr ''Soup'')]\<rparr>,
           E \<lparr>eid = 9, elabel = ''selects'', eout = 7, ein = 3,
              eprops = Some [(''count'', PNum 2)]\<rparr>,
           V \<lparr>vid = 7, vlabel = ''person'', vprops = [(''name'', PStr ''U2'')]\<rparr>]"

definition exampleUser :: vertex where
  "exampleUser = \<lparr>vid = 0, vlabel = ''person'', vprops = [(''name'', PStr ''U1'')]\<rparr>"

definition exampleRecipe :: "nat \<Rightarrow> string \<Rightarrow> string \<Rightarrow> vertex" where
  "exampleRecipe i n t =
     \<lparr>vid = i, vlabel = ''recipe'', vprops = [(''name'', PStr n), (''title'', PStr t)]\<rparr>"

text \<open>
  The vertices the service holds for a label and a value of a key, in creation order; the
  graph after an edge or a vertex was created; an edge that carries a count.
\<close>

definition storedVertices :: "graph \<Rightarrow> string \<Rightarrow> string \<Rightarrow> string \<Rightarrow> vertex list" where
  "storedVertices g l k x = filter (\<lambda>v. vlabel v = l \<and> hasValue v k x) (vertices g)"

definition withEdge :: "graph \<Rightarrow> edge \<Rightarrow> graph" where
  "withEdge g e = g\<lparr>edges := edges g @ [e], nextId := Suc (nextId g)\<rparr>"

definition withVertex :: "graph \<Rightarrow> vertex \<Rightarrow> graph" where
  "withVertex g v = g\<lparr>vertices := vertices g @ [v], nextId := Suc (nextId g)\<rparr>"

definition countedEdge :: "nat \<Rightarrow> string \<Rightarrow> nat \<Rightarrow> nat \<Rightarrow> int \<Rightarrow> edge" where
  "countedEdge i l ov iv n =
     \<lparr>eid = i, elabel = l, eout = ov, ein = iv, eprops = Some [(''count'', PNum n)]\<rparr>"

definition plainEdge :: "nat \<Rightarrow> string \<Rightarrow> nat \<Rightarrow> nat \<Rightarrow> edge" where
  "plainEdge i l ov iv = \<lparr>eid = i, elabel = l, eout = ov, ein = iv, eprops = None\<rparr>"

text \<open>The count an edge carries as the store reads it: 0 when it is unset.\<close>

definition countOr0 :: "edge \<Rightarrow> int" where
  "countOr0 e = (case edgeCount e of None \<Rightarrow> 0 | Some n \<Rightarrow> n)"

text \<open>
  The edge the service creates for what a caller passes, and the graph after the count of a
  found edge was written back.
\<close>

definition newEdge :: "graph \<Rightarrow> edgeSpec \<Rightarrow> edge" where
  "newEdge g spec =
     \<lparr>eid = nextId g, elabel = label spec, eout = outV spec, ein = inV spec,
      eprops = (case properties spec of
                  None \<Rightarrow> None
                | Some kvs \<Rightarrow> if kvs = [] then None else Some kvs)\<rparr>"

definition withIncrement :: "graph \<Rightarrow> edge \<Rightarrow> graph" where
  "withIncrement g found =
     g\<lparr>edges := map (\<lambda>e. if eid e = eid found
                           then setProperties (incrementedProperties found) e else e) (edges g)\<rparr>"

definition vertexIds :: "graph \<Rightarrow> nat set" where
  "vertexIds g = set (map vid (vertices g))"

text \<open>An edge on which no count is set.\<close>

definition countUnset :: "edge \<Rightarrow> bool" where
  "countUnset e = (case eprops e of None \<Rightarrow> True | Some ps \<Rightarrow> map_of ps ''count'' = None)"

text \<open>The weighted edge the three \<^verbatim>\<open>record...RequestForUser\<close> operations pass.\<close>

definition weightedEdge :: "string \<Rightarrow> nat \<Rightarrow> nat \<Rightarrow> edgeSpec" where
  "weightedEdge l ov iv =
     \<lparr>label = l, outV = ov, inV = iv, properties = Some [(''count'', PNum 1)]\<rparr>"

text \<open>
  The graph after a recipe was recorded for a person \<open>iu\<close> and an origin \<open>iw\<close>: three more
  edges than \<open>g\<close>, a weighted \<^verbatim>\<open>selects\<close> edge from the person to the recipe \<open>ir\<close>, a
  weighted \<^verbatim>\<open>selects\<close> edge from the origin to the recipe, and a \<^verbatim>\<open>has\<close> edge without
  properties from the recipe to the origin.
\<close>

definition recorded :: "graph \<Rightarrow> nat \<Rightarrow> nat \<Rightarrow> nat \<Rightarrow> int \<Rightarrow> int \<Rightarrow> graph" where
  "recorded g iu iw ir k1 k2 =
     g\<lparr>edges := edges g @
          [countedEdge (nextId g) ''selects'' iu ir k1,
           countedEdge (Suc (nextId g)) ''selects'' iw ir k2,
           plainEdge (Suc (Suc (nextId g))) ''has'' ir iw],
       nextId := Suc (Suc (Suc (nextId g)))\<rparr>"

text \<open>
  The recipe vertex the service creates for \<^verbatim>\<open>addRecipe\<close>: the title is the trimmed
  title, and the detail is the detail with a backslash and the letter \<^verbatim>\<open>n\<close> for every
  line feed, which is what the escaped text of the script stands for.
\<close>

definition newlinesAsText :: "string \<Rightarrow> string" where
  "newlinesAsText s =
     concat (map (\<lambda>ch. if ch = CHR 0x0A then [backslash, CHR ''n''] else [ch]) s)"

definition recipeVertexOf :: "graph \<Rightarrow> string \<Rightarrow> string \<Rightarrow> string \<Rightarrow> vertex" where
  "recipeVertexOf g recipeId recipeTitle recipeDetail =
     \<lparr>vid = nextId g, vlabel = ''recipe'',
      vprops = [(''name'', PStr (getUniqueRecipeName recipeId)),
                (''title'', PStr (trimJS recipeTitle)),
                (''detail'', PStr (newlinesAsText recipeDetail))]\<rparr>"

text \<open>No two edges of the graph join the same ordered pair of vertices.\<close>

definition onePerPair :: "graph \<Rightarrow> bool" where
  "onePerPair g = distinct (map (\<lambda>e. (eout e, ein e)) (edges g))"

text \<open>Calls of the two edge helpers, one after the other; a rejected call does not stop the next.\<close>

datatype helperCall = AddUpdate edgeSpec | AddIfNotExists edgeSpec

fun helperStep :: "client \<Rightarrow> helperCall \<Rightarrow> graph \<Rightarrow> graph" where
  "helperStep c (AddUpdate e) g = snd (addUpdateEdge serve c e g)"
| "helperStep c (AddIfNotExists e) g = snd (addEdgeIfNotExists serve c e g)"

definition helperCalls :: "client \<Rightarrow> helperCall list \<Rightarrow> graph \<Rightarrow> graph" where
  "helperCalls c calls g = foldl (\<lambda>g' call. helperStep c call g') g calls"

text \<open>A graph with a person and an ingredient and no edge.\<close>

definition exampleIngredient :: vertex where
  "exampleIngredient =
     \<lparr>vid = 1, vlabel = ''ingredient'', vprops = [(''name'', PStr ''basil,tomato'')]\<rparr>"

definition exampleGraph :: graph where
  "exampleGraph = \<lparr>vertices = [exampleUser, exampleIngredient], edges = [], nextId = 2\<rparr>"

text \<open>The same graph with an edge labelled \<^verbatim>\<open>has\<close> from the person to the ingredient.\<close>

definition exampleHasGraph :: graph where
  "exampleHasGraph =
     \<lparr>vertices = [exampleUser, exampleIngredient], edges = [plainEdge 2 ''has'' 0 1], nextId = 3\<rparr>"

text \<open>
  A title with an apostrophe, a detail of two lines, the recipe vertex the service stores
  for them, and the graph in which that recipe was recorded with counts of \<open>2 ^ 53\<close>.
\<close>

definition exampleTitle :: string where
  "exampleTitle = ''Mom'' @ [CHR 0x27] @ ''s Soup''"

definition exampleDetail :: string where
  "exampleDetail = ''Simmer.'' @ [CHR 0x0A] @ ''Serve.''"

definition storedExampleRecipe :: vertex where
  "storedExampleRecipe =
     \<lparr>vid = 2, vlabel = ''recipe'',
      vprops = [(''name'', PStr ''42''), (''title'', PStr exampleTitle),
                (''detail'', PStr (''Simmer.'' @ [backslash, CHR ''n''] @ ''Serve.''))]\<rparr>"

definition saturatedRecipeGraph :: graph where
  "saturatedRecipeGraph =
     \<lparr>vertices = [exampleUser, exampleIngredient, storedExampleRecipe],
      edges = [countedEdge 3 ''selects'' 0 2 9007199254740992,
               countedEdge 4 ''selects'' 1 2 9007199254740992,
               plainEdge 5 ''has'' 2 1],
      nextId = 6\<rparr>"

text \<open>
  The graph with a weighted edge from the person to the ingredient whose count is
  \<open>2 ^ 53\<close>.
\<close>

definition saturatedGraph :: graph where
  "saturatedGraph =
     \<lparr>vertices = [exampleUser, exampleIngredient],
      edges = [countedEdge 2 ''selects'' 0 1 9007199254740992], nextId = 3\<rparr>"

text \<open>The graph with the person, the ingredient and a recipe, and no edge.\<close>

definition exampleRecipeGraph :: graph where
  "exampleRecipeGraph =
     \<lparr>vertices = [exampleUser, exampleIngredient, exampleRecipe 2 ''42'' ''Tomato Soup''],
      edges = [], nextId = 3\<rparr>"

text \<open>
  An ingredient whose name holds a backslash before a double quote, the vertex the service
  stores for it, and the graph without vertices.
\<close>

definition escapedQuoteKey :: string where
  "escapedQuoteKey = [CHR ''a'', backslash, dquote, CHR ''b'']"

definition escapedQuoteIngredient :: vertexSpec where
  "escapedQuoteIngredient = \<lparr>vsLabel = ''ingredient'', vsProps = [(''name'', PStr escapedQuoteKey)]\<rparr>"

definition storedIngredient :: "nat \<Rightarrow> vertex" where
  "storedIngredient i = \<lparr>vid = i, vlabel = ''ingredient'', vprops = [(''name'', PStr escapedQuoteKey)]\<rparr>"

definition emptyGraph :: graph where
  "emptyGraph = \<lparr>vertices = [], edges = [], nextId = 0\<rparr>"

text \<open>
  Text that stands for itself between the double quotes of a script: no backslash, no
  double quote, no dollar sign and no line break. Text that does so after
  \<^verbatim>\<open>escapeStringValue\<close>, which takes care of the double quotes and dollar signs; and
  text in which the line feeds are taken care of as well, as in the detail of a recipe.
\<close>

definition plainChar :: "char \<Rightarrow> bool" where
  "plainChar ch =
     (ch \<noteq> backslash \<and> ch \<noteq> dquote \<and> ch \<noteq> dollar \<and> ch \<noteq> CHR 0x0A \<and> ch \<noteq> CHR 0x0D)"

definition plain :: "string \<Rightarrow> bool" where
  "plain s = list_all plainChar s"

definition textual :: "string \<Rightarrow> bool" where
  "textual s = list_all (\<lambda>ch. ch \<noteq> backslash \<and> ch \<noteq> CHR 0x0A \<and> ch \<noteq> CHR 0x0D) s"

definition textualLines :: "string \<Rightarrow> bool" where
  "textualLines s = list_all (\<lambda>ch. ch \<noteq> backslash \<and> ch \<noteq> CHR 0x0D) s"

text \<open>
  The text \<open>a\<close> inside a string literal stands for \<open>x\<close>, whatever follows it. The
  property a clause of a creation or an update stands for: the key as it is, a number as
  it is, and for a string what its escaped text stands for.
\<close>

definition passes :: "string \<Rightarrow> string \<Rightarrow> bool" where
  "passes a x =
     (\<forall>rest. stringLiteral (a @ rest) = map_option (\<lambda>(t, r). (x @ t, r)) (stringLiteral rest))"

definition readsAs :: "string \<times> pvalue \<Rightarrow> string \<times> pvalue \<Rightarrow> bool" where
  "readsAs kv kv' =
     (plain (fst kv) \<and> fst kv' = fst kv
      \<and> (case snd kv of
            PNum n \<Rightarrow> snd kv' = PNum n
          | PStr s \<Rightarrow> (\<exists>t. snd kv' = PStr t \<and> passes (escapeStringValue s) t)))"

definition noDigitAhead :: "string \<Rightarrow> bool" where
  "noDigitAhead s = (case s of [] \<Rightarrow> True | ch # _ \<Rightarrow> \<not> isDigit ch)"

definition clauseText :: "string \<Rightarrow> string \<Rightarrow> string \<times> pvalue \<Rightarrow> string" where
  \<open>clauseText opening closing kv = opening @ fst kv @ ''", '' @ renderValue (snd kv) @ closing\<close>

text \<open>The scripts whose text the service reads back, and what it reads.\<close>

definition plainTraversal :: "traversal \<Rightarrow> bool" where
  "plainTraversal t =
     (case t of
        FindVertices l p x \<Rightarrow> plain l \<and> plain p \<and> plain x
      | FindEdgePath ov iv \<Rightarrow> True
      | FavoriteRecipes name n \<Rightarrow> plain name
      | RecommendedRecipes l k name \<Rightarrow> plain l \<and> plain k \<and> plain name)"

definition plainStatement :: "statement \<Rightarrow> statement \<Rightarrow> bool" where
  "plainStatement st st' =
     (case st of
        Traversal t \<Rightarrow> plainTraversal t \<and> st' = st
      | AddVertex l ps \<Rightarrow> plain l \<and> (\<exists>ps'. list_all2 readsAs ps ps' \<and> st' = AddVertex l ps')
      | AddEdge l ov iv ps \<Rightarrow>
          plain l \<and> (\<exists>ps'. list_all2 readsAs ps ps' \<and> st' = AddEdge l ov iv ps')
      | SetEdgeProperties i ps \<Rightarrow>
          (\<exists>ps'. list_all2 readsAs ps ps' \<and> st' = SetEdgeProperties i ps'))"

text \<open>What the escaping of \<^verbatim>\<open>addRecipe\<close> makes of one character of a title and of a detail.\<close>

definition titleBlock :: "char \<Rightarrow> string" where
  "titleBlock ch = (if ch = CHR 0x27 then [backslash, CHR 0x27] else [ch])"

definition detailBlock :: "char \<Rightarrow> string" where
  "detailBlock ch =
     (if ch = CHR 0x27 then [backslash, CHR 0x27]
      else if ch = CHR 0x0A then [backslash, backslash, CHR ''n'']
      else [ch])"

text \<open>The properties of a vertex or an edge that the service reads back as they are.\<close>

definition plainProps :: "props \<Rightarrow> bool" where
  "plainProps ps =
     list_all (\<lambda>kv. plain (fst kv) \<and> (case snd kv of PNum n \<Rightarrow> True | PStr s \<Rightarrow> textual s)) ps"

section \<open>Properties\<close>

subsection \<open>Splitting, trimming and lower-casing\<close>

lemma splitComma_nonempty: "splitComma s \<noteq> []"
  by (induction s) (auto split: list.splits)

lemma of_char_lowerChar:
  "(of_char (lowerChar c) :: nat) =
     (let n = (of_char c :: nat)
      in if (65 \<le> n \<and> n \<le> 90) \<or> (192 \<le> n \<and> n \<le> 222 \<and> n \<noteq> 215) then n + 32 else n)"
  by (auto simp: lowerChar_def Let_def)

lemma char_eq_iff_nat: "(c = d) = ((of_char c :: nat) = of_char d)"
  by simp

lemma lowerChar_comma: "(lowerChar c = CHR '','') = (c = CHR '','')"
  unfolding char_eq_iff_nat [of "lowerChar c"] char_eq_iff_nat [of c] of_char_lowerChar
  by (auto simp: Let_def)

lemma isWhiteSpace_lowerChar: "isWhiteSpace (lowerChar c) = isWhiteSpace c"
  unfolding isWhiteSpace_def of_char_lowerChar
  by (auto simp: Let_def)

lemma isWhiteSpace_not_comma: "isWhiteSpace c \<Longrightarrow> c \<noteq> CHR '',''"
  by (auto simp: isWhiteSpace_def)

lemma splitComma_toLowerCaseJS:
  "splitComma (toLowerCaseJS s) = map toLowerCaseJS (splitComma s)"
  by (induction s) (auto simp: toLowerCaseJS_def lowerChar_comma split: list.splits)

lemma trimJS_toLowerCaseJS: "trimJS (toLowerCaseJS x) = toLowerCaseJS (trimJS x)"
  by (simp add: trimJS_def toLowerCaseJS_def dropWhile_map rev_map comp_def
      isWhiteSpace_lowerChar)

text \<open>A comma-free prefix joins the first piece, a comma-free suffix the last one.\<close>

lemma splitComma_prefix:
  "CHR '','' \<notin> set p \<Longrightarrow> splitComma (p @ s) = (p @ hd (splitComma s)) # tl (splitComma s)"
  using splitComma_nonempty [of s]
  by (induction p) (auto split: list.splits)

lemma splitComma_suffix:
  "CHR '','' \<notin> set p \<Longrightarrow>
   splitComma (s @ p) = butlast (splitComma s) @ [last (splitComma s) @ p]"
proof (induction s)
  case Nil
  then show ?case by (induction p) (auto split: list.splits)
next
  case (Cons a s)
  then show ?case using splitComma_nonempty [of s]
    by (auto split: list.splits)
qed

lemma trimJS_prefix: "\<forall>c\<in>set p. isWhiteSpace c \<Longrightarrow> trimJS (p @ x) = trimJS x"
  by (simp add: trimJS_def)

lemma trimJS_suffix:
  assumes p: "\<forall>c\<in>set p. isWhiteSpace c"
  shows "trimJS (x @ p) = trimJS x"
proof (cases "\<forall>c\<in>set x. isWhiteSpace c")
  case True
  with p have a: "dropWhile isWhiteSpace (x @ p) = []" and b: "dropWhile isWhiteSpace x = []"
    by auto
  show ?thesis unfolding trimJS_def a b by (rule refl)
next
  case False
  then have a: "dropWhile isWhiteSpace (x @ p) = dropWhile isWhiteSpace x @ p"
    by (auto simp: dropWhile_append1)
  have b: "dropWhile isWhiteSpace (rev p @ y) = dropWhile isWhiteSpace y" for y
    using p by (intro dropWhile_append2) simp
  show ?thesis unfolding trimJS_def a rev_append b by (rule refl)
qed

lemma trimmed_pieces_prefix:
  assumes "\<forall>c\<in>set p. isWhiteSpace c"
  shows "map trimJS (splitComma (p @ s)) = map trimJS (splitComma s)"
proof -
  from assms have "CHR '','' \<notin> set p" using isWhiteSpace_not_comma by blast
  then have "splitComma (p @ s) = (p @ hd (splitComma s)) # tl (splitComma s)"
    by (rule splitComma_prefix)
  moreover have "splitComma s = hd (splitComma s) # tl (splitComma s)"
    using splitComma_nonempty [of s] by simp
  ultimately show ?thesis using trimJS_prefix [OF assms]
    by (metis list.simps(9))
qed

lemma trimmed_pieces_suffix:
  assumes "\<forall>c\<in>set p. isWhiteSpace c"
  shows "map trimJS (splitComma (s @ p)) = map trimJS (splitComma s)"
proof -
  from assms have "CHR '','' \<notin> set p" using isWhiteSpace_not_comma by blast
  then have "splitComma (s @ p) = butlast (splitComma s) @ [last (splitComma s) @ p]"
    by (rule splitComma_suffix)
  moreover have "splitComma s = butlast (splitComma s) @ [last (splitComma s)]"
    using splitComma_nonempty [of s] by simp
  ultimately show ?thesis using trimJS_suffix [OF assms]
    by (metis list.simps(9) map_append)
qed

text \<open>Trimming the whole string first changes no trimmed piece.\<close>

lemma trimmed_pieces_trimJS: "map trimJS (splitComma (trimJS s)) = map trimJS (splitComma s)"
proof -
  let ?a = "takeWhile isWhiteSpace s"
  let ?b = "dropWhile isWhiteSpace s"
  let ?q = "rev (takeWhile isWhiteSpace (rev ?b))"
  have "rev (takeWhile isWhiteSpace (rev ?b) @ dropWhile isWhiteSpace (rev ?b)) = ?b"
    by (simp only: takeWhile_dropWhile_id rev_rev_ident)
  then have b: "?b = trimJS s @ ?q" by (simp only: rev_append trimJS_def)
  have wa: "\<forall>c\<in>set ?a. isWhiteSpace c" by (auto dest: set_takeWhileD)
  have wq: "\<forall>c\<in>set ?q. isWhiteSpace c" by (auto dest: set_takeWhileD)
  have "map trimJS (splitComma s) = map trimJS (splitComma (?a @ ?b))" by simp
  also have "\<dots> = map trimJS (splitComma ?b)" by (rule trimmed_pieces_prefix [OF wa])
  also have "\<dots> = map trimJS (splitComma (trimJS s @ ?q))" using b by simp
  also have "\<dots> = map trimJS (splitComma (trimJS s))" by (rule trimmed_pieces_suffix [OF wq])
  finally show ?thesis by simp
qed

lemma pieces_canonElement:
  "map trimJS (splitComma (toLowerCaseJS (trimJS s))) = map canonElement (splitComma s)"
proof -
  have "map trimJS (splitComma (toLowerCaseJS (trimJS s))) =
        map trimJS (splitComma (trimJS (toLowerCaseJS s)))" by (simp add: trimJS_toLowerCaseJS)
  also have "\<dots> = map trimJS (splitComma (toLowerCaseJS s))" by (rule trimmed_pieces_trimJS)
  also have "\<dots> = map canonElement (splitComma s)"
    by (simp add: splitComma_toLowerCaseJS canonElement_def comp_def)
  finally show ?thesis .
qed

lemma getUniqueIngredientsName_sorted_pieces:
  "getUniqueIngredientsName s = joinComma (sort (map canonElement (splitComma s)))"
  by (simp add: getUniqueIngredientsName_def pieces_canonElement)

lemma sort_mset_cong: "mset xs = mset ys \<Longrightarrow> sort xs = sort (ys :: 'a :: linorder list)"
  by (rule properties_for_sort) simp_all

lemma splitComma_joinComma:
  "xs \<noteq> [] \<Longrightarrow> \<forall>x\<in>set xs. CHR '','' \<notin> set x \<Longrightarrow> splitComma (joinComma xs) = xs"
proof (induction xs rule: joinComma.induct)
  case 1
  then show ?case by simp
next
  case (2 x)
  then show ?case using splitComma_suffix [of x "[]"] by simp
next
  case (3 x y ys)
  then have "splitComma (joinComma (y # ys)) = y # ys" by simp
  moreover have "splitComma (x @ CHR '','' # joinComma (y # ys)) =
     (x @ hd (splitComma (CHR '','' # joinComma (y # ys))))
       # tl (splitComma (CHR '','' # joinComma (y # ys)))"
    using 3 by (intro splitComma_prefix) simp
  ultimately show ?case by simp
qed

text \<open>
  Claim C2. The ingredients a string names are its comma-separated pieces. When two strings
  name the same multiset of ingredients up to letter casing and surrounding whitespace of
  each piece (so they may differ in the order of the pieces as well), they get the same
  key. The key is the sorted list of the lower-cased, trimmed pieces, joined with commas;
  \<^verbatim>\<open>"Tomato, Onion"\<close> and \<^verbatim>\<open>"onion,tomato"\<close> both give \<^verbatim>\<open>"onion,tomato"\<close>.
\<close>

theorem getUniqueIngredientsName_canonical:
  "(mset (map canonElement (splitComma s1)) = mset (map canonElement (splitComma s2))
      \<longrightarrow> getUniqueIngredientsName s1 = getUniqueIngredientsName s2)
   \<and> getUniqueIngredientsName s1 = joinComma (sort (map canonElement (splitComma s1)))
   \<and> getUniqueIngredientsName ''Tomato, Onion'' = ''onion,tomato''
   \<and> getUniqueIngredientsName ''onion,tomato'' = ''onion,tomato''"
proof -
  have ex1: "getUniqueIngredientsName ''Tomato, Onion'' = ''onion,tomato''" by code_simp
  have ex2: "getUniqueIngredientsName ''onion,tomato'' = ''onion,tomato''" by code_simp
  show ?thesis
    using ex1 ex2
      sort_mset_cong [of "map canonElement (splitComma s1)" "map canonElement (splitComma s2)"]
    by (simp add: getUniqueIngredientsName_sorted_pieces)
qed

theorem getUniqueIngredientsName_canonical_witness:
  "mset (map canonElement (splitComma '' Basil,TOMATO'')) =
     mset (map canonElement (splitComma ''tomato ,basil''))
   \<and> getUniqueIngredientsName '' Basil,TOMATO'' = getUniqueIngredientsName ''tomato ,basil''
   \<and> getUniqueIngredientsName '' Basil,TOMATO'' = ''basil,tomato''"
proof -
  have a: "map canonElement (splitComma '' Basil,TOMATO'') = [''basil'', ''tomato'']"
    by code_simp
  have b: "map canonElement (splitComma ''tomato ,basil'') = [''tomato'', ''basil'']"
    by code_simp
  have h: "mset (map canonElement (splitComma '' Basil,TOMATO'')) =
           mset (map canonElement (splitComma ''tomato ,basil''))"
    unfolding a b by simp
  have v: "getUniqueIngredientsName '' Basil,TOMATO'' = ''basil,tomato''" by code_simp
  from getUniqueIngredientsName_canonical [of "'' Basil,TOMATO''" "''tomato ,basil''"] h
  have "getUniqueIngredientsName '' Basil,TOMATO'' = getUniqueIngredientsName ''tomato ,basil''"
    by blast
  with h v show ?thesis by blast
qed

text \<open>
  The same for lists of ingredients written out with commas: permuting the elements,
  changing their letter casing or the whitespace around them does not change the key.
\<close>

lemma getUniqueIngredientsName_permuted:
  assumes "xs \<noteq> []" and "ys \<noteq> []"
    and "\<forall>x\<in>set xs. CHR '','' \<notin> set x" and "\<forall>y\<in>set ys. CHR '','' \<notin> set y"
    and "mset (map canonElement xs) = mset (map canonElement ys)"
  shows "getUniqueIngredientsName (joinComma xs) = getUniqueIngredientsName (joinComma ys)"
  using assms sort_mset_cong [of "map canonElement xs" "map canonElement ys"]
  by (simp add: getUniqueIngredientsName_sorted_pieces splitComma_joinComma)

subsection \<open>The three replacements of the escaping\<close>

lemma replaceEscapedQuotes_append:
  "replaceEscapedQuotes (xs @ backslash # dquote # ys) =
   replaceEscapedQuotes xs @ backslash # backslash # dquote # replaceEscapedQuotes ys"
  by (induction xs rule: replaceEscapedQuotes.induct) (auto simp: backslash_def dquote_def)

lemma replaceEscapedQuotes_id: "\<not> hasEscapedQuote v \<Longrightarrow> replaceEscapedQuotes v = v"
  by (induction v rule: replaceEscapedQuotes.induct) auto

lemma replace_quotes_dollars:
  "replaceDollars (replaceQuotes w) = concat (map escapeQuoteDollar w)"
  by (induction w)
    (auto simp: replaceDollars_def replaceQuotes_def escapeChar_def escapeQuoteDollar_def
       backslash_def dquote_def dollar_def)

text \<open>\<open>hasEscapedQuote\<close> says that a backslash stands right before a double quote.\<close>

lemma hasEscapedQuote_iff:
  "hasEscapedQuote v = (\<exists>xs ys. v = xs @ backslash # dquote # ys)"
proof (induction v rule: hasEscapedQuote.induct)
  case (1 a b cs)
  show ?case
  proof (cases "a = backslash \<and> b = dquote")
    case True
    then have "a # b # cs = [] @ backslash # dquote # cs" by simp
    then show ?thesis using True by (metis hasEscapedQuote.simps(1))
  next
    case False
    have "(\<exists>xs ys. a # b # cs = xs @ backslash # dquote # ys) =
          (\<exists>xs ys. b # cs = xs @ backslash # dquote # ys)"
    proof
      assume "\<exists>xs ys. a # b # cs = xs @ backslash # dquote # ys"
      then obtain xs ys where e: "a # b # cs = xs @ backslash # dquote # ys" by blast
      with False obtain xs' where "xs = a # xs'" by (cases xs) auto
      with e show "\<exists>xs ys. b # cs = xs @ backslash # dquote # ys" by auto
    next
      assume "\<exists>xs ys. b # cs = xs @ backslash # dquote # ys"
      then obtain xs ys where "b # cs = xs @ backslash # dquote # ys" by blast
      then have "a # b # cs = (a # xs) @ backslash # dquote # ys" by simp
      then show "\<exists>xs ys. a # b # cs = xs @ backslash # dquote # ys" by blast
    qed
    with 1 False show ?thesis by auto
  qed
next
  case (2 a)
  have "[a] \<noteq> xs @ backslash # dquote # ys" for xs ys by (cases xs) auto
  then show ?case by simp
next
  case 3
  then show ?case by simp
qed

text \<open>
  Claim C3, as the code has it. The three replacements are made in this order. The first
  is not the identity on a backslash-escaped double quote: it puts a second backslash
  before every backslash that stands right before a double quote. The second then puts a
  backslash before every double quote, those of the rewritten sequences included, and the
  third a backslash before every dollar sign. For a string in which no backslash stands
  right before a double quote, the result is the string with a backslash put before every
  double quote and every dollar sign.
\<close>

theorem escapeStringValue_replacements:
  "escapeStringValue v = replaceDollars (replaceQuotes (replaceEscapedQuotes v))
   \<and> escapeStringValue v = concat (map escapeQuoteDollar (replaceEscapedQuotes v))
   \<and> replaceEscapedQuotes (xs @ backslash # dquote # ys) =
       replaceEscapedQuotes xs @ backslash # backslash # dquote # replaceEscapedQuotes ys
   \<and> (\<not> hasEscapedQuote v \<longrightarrow>
        replaceEscapedQuotes v = v \<and> escapeStringValue v = concat (map escapeQuoteDollar v))"
  by (simp add: escapeStringValue_def replace_quotes_dollars replaceEscapedQuotes_append
      replaceEscapedQuotes_id)

theorem escapeStringValue_replacements_witness:
  "\<not> hasEscapedQuote [CHR ''a'', dquote, dollar]
   \<and> escapeStringValue [CHR ''a'', dquote, dollar] =
       [CHR ''a'', backslash, dquote, backslash, dollar]"
proof -
  have h: "\<not> hasEscapedQuote [CHR ''a'', dquote, dollar]"
    by (simp add: backslash_def dquote_def)
  have e: "concat (map escapeQuoteDollar [CHR ''a'', dquote, dollar]) =
           [CHR ''a'', backslash, dquote, backslash, dollar]"
    by (simp add: escapeQuoteDollar_def backslash_def dquote_def dollar_def)
  from escapeStringValue_replacements [of "[CHR ''a'', dquote, dollar]" "[]" "[]"] h
  have "escapeStringValue [CHR ''a'', dquote, dollar] =
        concat (map escapeQuoteDollar [CHR ''a'', dquote, dollar])"
    by blast
  with h e show ?thesis by simp
qed

text \<open>
  The claim says that the first replacement turns a backslash-escaped double quote into
  the same form. On the two characters backslash, double quote it gives three characters,
  and the whole escaping gives four.
\<close>

theorem escapeStringValue_first_replacement_counterexample:
  "replaceEscapedQuotes [backslash, dquote] = [backslash, backslash, dquote]
   \<and> replaceEscapedQuotes [backslash, dquote] \<noteq> [backslash, dquote]
   \<and> escapeStringValue [backslash, dquote] = [backslash, backslash, backslash, dquote]"
  by (simp add: escapeStringValue_def replaceQuotes_def replaceDollars_def escapeChar_def
      backslash_def dquote_def dollar_def)

subsection \<open>Replies and the status test\<close>

lemma truthy_statusCheck: "truthy (statusCheck b) = status200 b"
  by (simp add: statusCheck_def status200_def split: option.splits)

lemma noData_rowsOf: "noData b = (rowsOf b = [])"
  by (simp add: noData_def rowsOf_def split: option.splits)

lemma hasRows_noData: "hasRows b = (\<not> noData b)"
  by (simp add: hasRows_def noData_rowsOf)

lemma runGremlinQuery_replied:
  "rp (InGraph (graphIdText c) q) s = (Replied b, s') \<Longrightarrow>
   runGremlinQuery rp c q s =
     (if status200 b then (Resolved b, s') else (Rejected InvalidStatus, s'))"
  by (simp add: runGremlinQuery_def thenP_def request_def resolve_def reject_def
      truthy_statusCheck)

lemma runGremlinQuery_logging:
  "runGremlinQuery (logging rp) c q (s, l) =
     (case runGremlinQuery rp c q s of (r, s') \<Rightarrow> (r, (s', l @ [InGraph (graphIdText c) q])))"
  by (cases "rp (InGraph (graphIdText c) q) s")
    (auto simp: runGremlinQuery_def thenP_def request_def logging_def resolve_def reject_def
      split: outcome.splits option.splits)

text \<open>
  Claim C4, as the code has it. \<^verbatim>\<open>graphExists\<close> never rejects. It resolves to
  \<^verbatim>\<open>true\<close> exactly when the reply carries a status whose code is 200. After a transport
  failure or an exception it resolves to \<^verbatim>\<open>false\<close>, and so it does for a code other than
  0 and 200. When the status or its code is absent it resolves to \<^verbatim>\<open>undefined\<close>, and
  when the code is 0 to \<^verbatim>\<open>0\<close>: falsy values, but not the boolean \<^verbatim>\<open>false\<close>.
\<close>

theorem graphExists_outcome:
  "fst (graphExists rp i s) =
     Resolved (case fst (rp (OpenGraph i) s) of
                 Failed \<Rightarrow> JBool False
               | NoBody \<Rightarrow> JBool False
               | Replied b \<Rightarrow> statusCheck b)
   \<and> (fst (graphExists rp i s) = Resolved (JBool True)) =
       (\<exists>b st. fst (rp (OpenGraph i) s) = Replied b \<and> status b = Some st \<and> code st = Some 200)
   \<and> truthy (statusCheck b) = (\<exists>st. status b = Some st \<and> code st = Some 200)
   \<and> (statusCheck b = JBool False) =
       (\<exists>st n. status b = Some st \<and> code st = Some n \<and> n \<noteq> 0 \<and> n \<noteq> 200)
   \<and> (statusCheck b = JUndefined) =
       (status b = None \<or> (\<exists>st. status b = Some st \<and> code st = None))
   \<and> (statusCheck b = JNum 0) = (\<exists>st. status b = Some st \<and> code st = Some 0)"
proof -
  obtain out s' where r: "rp (OpenGraph i) s = (out, s')" by (cases "rp (OpenGraph i) s")
  have 1: "fst (graphExists rp i s) =
     Resolved (case fst (rp (OpenGraph i) s) of
                 Failed \<Rightarrow> JBool False
               | NoBody \<Rightarrow> JBool False
               | Replied b \<Rightarrow> statusCheck b)"
    using r by (cases out)
      (simp_all add: graphExists_def catchP_def thenP_def request_def checkedStatus_def
        resolve_def reject_def)
  have 2: "(fst (graphExists rp i s) = Resolved (JBool True)) =
       (\<exists>b st. fst (rp (OpenGraph i) s) = Replied b \<and> status b = Some st \<and> code st = Some 200)"
    unfolding 1 using r
    by (cases out) (auto simp: statusCheck_def split: option.splits)
  have 3: "truthy (statusCheck b) = (\<exists>st. status b = Some st \<and> code st = Some 200)"
    by (auto simp: statusCheck_def split: option.splits)
  have 4: "(statusCheck b = JBool False) =
      (\<exists>st n. status b = Some st \<and> code st = Some n \<and> n \<noteq> 0 \<and> n \<noteq> 200)"
    by (auto simp: statusCheck_def split: option.splits)
  have 5: "(statusCheck b = JUndefined) =
      (status b = None \<or> (\<exists>st. status b = Some st \<and> code st = None))"
    by (auto simp: statusCheck_def split: option.splits)
  have 6: "(statusCheck b = JNum 0) = (\<exists>st. status b = Some st \<and> code st = Some 0)"
    by (auto simp: statusCheck_def split: option.splits)
  from 1 2 3 4 5 6 show ?thesis by blast
qed

text \<open>
  The claim says that an absent status resolves to \<^verbatim>\<open>false\<close>. For the reply \<^verbatim>\<open>{}\<close> the
  promise resolves to \<^verbatim>\<open>undefined\<close>.
\<close>

theorem graphExists_absent_status_counterexample:
  "fst (graphExists (always (Replied \<lparr>status = None, result = None\<rparr>)) ''recipes'' ())
     = Resolved JUndefined
   \<and> fst (graphExists (always (Replied \<lparr>status = None, result = None\<rparr>)) ''recipes'' ())
     \<noteq> Resolved (JBool False)"
  by (simp add: graphExists_def catchP_def thenP_def request_def checkedStatus_def
        resolve_def reject_def statusCheck_def always_def)

text \<open>
  Claim C5. A reply with status 200 whose \<^verbatim>\<open>result\<close> or \<^verbatim>\<open>data\<close> is absent, or whose
  \<^verbatim>\<open>data\<close> is empty, is no error: \<^verbatim>\<open>findVertex\<close>, \<^verbatim>\<open>createVertex\<close> and \<^verbatim>\<open>createEdge\<close>
  resolve to \<^verbatim>\<open>null\<close>.
\<close>

theorem empty_result_resolves_null:
  "(rp (InGraph (graphIdText c) (Traversal (FindVertices l p x))) s = (Replied b, s')
      \<and> status200 b \<and> noData b
      \<longrightarrow> findVertex rp c l p x s = (Resolved None, s'))
   \<and> (rp (InGraph (graphIdText c) (AddVertex (vsLabel v) (vsProps v))) s = (Replied b, s')
      \<and> status200 b \<and> noData b
      \<longrightarrow> createVertex rp c v s = (Resolved None, s'))
   \<and> (rp (InGraph (graphIdText c) (AddEdge lb ov iv (case ps of None \<Rightarrow> [] | Some kvs \<Rightarrow> kvs))) s
        = (Replied b, s')
      \<and> status200 b \<and> noData b
      \<longrightarrow> createEdge rp c lb ov iv ps s = (Resolved None, s'))"
  by (simp add: findVertex_def createVertex_def createEdge_def thenP_def runGremlinQuery_replied
      resolve_def firstRow_def noData_rowsOf)

theorem empty_result_resolves_null_witness:
  "status200 (okBody []) \<and> noData (okBody [])
   \<and> findVertex (always (ok [])) exampleClient ''recipe'' ''name'' ''42'' () = (Resolved None, ())
   \<and> createVertex (always (ok [])) exampleClient
        \<lparr>vsLabel = ''recipe'', vsProps = [(''name'', PStr ''42'')]\<rparr> () = (Resolved None, ())
   \<and> createEdge (always (ok [])) exampleClient ''has'' 3 1 None () = (Resolved None, ())"
proof -
  have h: "status200 (okBody [])" "noData (okBody [])"
    by (simp_all add: status200_def noData_def okBody_def)
  have r: "always (ok []) q () = (Replied (okBody []), ())" for q
    by (simp add: always_def ok_def)
  from empty_result_resolves_null
    [of "always (ok [])" exampleClient "''recipe''" "''name''" "''42''" "()" "okBody []" "()"
       "\<lparr>vsLabel = ''recipe'', vsProps = [(''name'', PStr ''42'')]\<rparr>" "''has''" 3 1 None]
    h r
  show ?thesis by simp
qed

subsection \<open>Favourite recipes\<close>

lemma favoriteRows_vertices:
  "list_all hasNameAndTitle vs \<Longrightarrow>
   favoriteRows (map (\<lambda>v. Single (V v)) vs) = Resolved (map idAndTitle vs)"
  by (induction vs) (auto simp: favoriteOfRow_def hasNameAndTitle_def idAndTitle_def)

lemma findFavoriteRecipesForUser_script:
  assumes "map_of (vprops userVertex) ''name'' = Some name"
  shows "snd (snd (findFavoriteRecipesForUser (logging rp) c userVertex n (s, []))) =
       [InGraph (graphIdText c) (Traversal (FavoriteRecipes (toStringJS name) n))]"
  using assms
  by (cases "runGremlinQuery rp c (Traversal (FavoriteRecipes (toStringJS name) n)) s")
    (auto simp: findFavoriteRecipesForUser_def thenP_def runGremlinQuery_logging settle_def
      resolve_def split: promise.splits)

lemma findFavoriteRecipesForUser_rows:
  assumes n: "map_of (vprops userVertex) ''name'' = Some name"
    and r: "rp (InGraph (graphIdText c) (Traversal (FavoriteRecipes (toStringJS name) n))) s
             = (Replied b, s')"
    and b: "status200 b" "rowsOf b = map (\<lambda>v. Single (V v)) vs" "list_all hasNameAndTitle vs"
  shows "findFavoriteRecipesForUser rp c userVertex n s = (Resolved (map idAndTitle vs), s')"
proof -
  from b have fr: "favoriteRows (rowsOf b) = Resolved (map idAndTitle vs)"
    by (simp add: favoriteRows_vertices)
  from b have e: "\<not> hasRows b \<Longrightarrow> vs = []" by (simp add: hasRows_def)
  from n r b(1) fr e show ?thesis
    by (cases "hasRows b")
      (simp_all add: findFavoriteRecipesForUser_def thenP_def runGremlinQuery_replied
        settle_def resolve_def)
qed

lemma findFavoriteRecipesForUser_empty:
  assumes "map_of (vprops userVertex) ''name'' = Some name"
    and "rp (InGraph (graphIdText c) (Traversal (FavoriteRecipes (toStringJS name) n))) s
             = (Replied b, s')"
    and "status200 b" "noData b"
  shows "findFavoriteRecipesForUser rp c userVertex n s = (Resolved [], s')"
  using assms
  by (simp add: findFavoriteRecipesForUser_def thenP_def runGremlinQuery_replied hasRows_noData
      resolve_def)

text \<open>
  Claim C9. For a person vertex with a name, \<^verbatim>\<open>findFavoriteRecipesForUser\<close> issues one
  script: the traversal from the person of that name along all outgoing edges, ordered by
  \<^verbatim>\<open>count\<close> descending, on to the vertices they point to, of these the ones labelled
  \<^verbatim>\<open>recipe\<close>, cut at the limit. When the reply has rows, each a vertex with a name and a
  title, the result is the list of their \<^verbatim>\<open>{id, title}\<close> in the order of the rows; when
  the reply has no rows, the result is the empty list.
\<close>

theorem findFavoriteRecipesForUser_result:
  \<open>map_of (vprops userVertex) ''name'' = Some name \<longrightarrow>
     snd (snd (findFavoriteRecipesForUser (logging rp) c userVertex n (s, []))) =
       [InGraph (graphIdText c) (Traversal (FavoriteRecipes (toStringJS name) n))]
     \<and> renderTraversal (FavoriteRecipes (toStringJS name) n) =
         ''g.V().hasLabel("person").has("name", "'' @ toStringJS name
           @ ''").outE().order().by("count", decr).inV().hasLabel("recipe").limit(''
           @ showNat n @ '')''
     \<and> (rp (InGraph (graphIdText c) (Traversal (FavoriteRecipes (toStringJS name) n))) s
           = (Replied b, s')
         \<and> status200 b \<and> rowsOf b = map (\<lambda>v. Single (V v)) vs \<and> list_all hasNameAndTitle vs
         \<longrightarrow> findFavoriteRecipesForUser rp c userVertex n s = (Resolved (map idAndTitle vs), s'))
     \<and> (rp (InGraph (graphIdText c) (Traversal (FavoriteRecipes (toStringJS name) n))) s
           = (Replied b, s')
         \<and> status200 b \<and> noData b
         \<longrightarrow> findFavoriteRecipesForUser rp c userVertex n s = (Resolved [], s'))\<close>
  using findFavoriteRecipesForUser_script [of userVertex name rp c n s]
    findFavoriteRecipesForUser_rows [of userVertex name rp c n s b s' vs]
    findFavoriteRecipesForUser_empty [of userVertex name rp c n s b s']
  by simp

theorem findFavoriteRecipesForUser_result_witness:
  "map_of (vprops exampleUser) ''name'' = Some (PStr ''U1'')
   \<and> status200 (okBody [Single (V (exampleRecipe 3 ''42'' ''Tomato Soup'')),
                         Single (V (exampleRecipe 5 ''7'' ''Pesto''))])
   \<and> list_all hasNameAndTitle [exampleRecipe 3 ''42'' ''Tomato Soup'', exampleRecipe 5 ''7'' ''Pesto'']
   \<and> findFavoriteRecipesForUser
        (always (ok [Single (V (exampleRecipe 3 ''42'' ''Tomato Soup'')),
                     Single (V (exampleRecipe 5 ''7'' ''Pesto''))]))
        exampleClient exampleUser 5 ()
      = (Resolved [\<lparr>favId = PStr ''42'', favTitle = PStr ''Tomato Soup''\<rparr>,
                   \<lparr>favId = PStr ''7'', favTitle = PStr ''Pesto''\<rparr>], ())
   \<and> noData (okBody [])
   \<and> findFavoriteRecipesForUser (always (ok [])) exampleClient exampleUser 5 ()
      = (Resolved [], ())
   \<and> snd (snd (findFavoriteRecipesForUser (logging (always (ok []))) exampleClient exampleUser 5
                 ((), [])))
      = [InGraph ''recipes'' (Traversal (FavoriteRecipes ''U1'' 5))]"
proof -
  let ?vs = "[exampleRecipe 3 ''42'' ''Tomato Soup'', exampleRecipe 5 ''7'' ''Pesto'']"
  let ?b = "okBody (map (\<lambda>v. Single (V v)) ?vs)"
  let ?q = "InGraph (graphIdText exampleClient)
              (Traversal (FavoriteRecipes (toStringJS (PStr ''U1'')) 5))"
  have n: "map_of (vprops exampleUser) ''name'' = Some (PStr ''U1'')"
    by (simp add: exampleUser_def)
  have a: "always (ok rows) x () = (Replied (okBody rows), ())" for rows x
    by (simp add: always_def ok_def)
  have q: "?q = InGraph ''recipes'' (Traversal (FavoriteRecipes ''U1'' 5))"
    by (simp add: graphIdText_def exampleClient_def)
  have ob: "status200 (okBody rows)" "rowsOf (okBody rows) = rows" for rows
    by (simp_all add: status200_def okBody_def rowsOf_def)
  have b: "status200 ?b" "rowsOf ?b = map (\<lambda>v. Single (V v)) ?vs" "list_all hasNameAndTitle ?vs"
    by (simp_all add: ob hasNameAndTitle_def exampleRecipe_def)
  have h1: "always (ok (map (\<lambda>v. Single (V v)) ?vs)) ?q () = (Replied ?b, ())
      \<and> status200 ?b \<and> rowsOf ?b = map (\<lambda>v. Single (V v)) ?vs \<and> list_all hasNameAndTitle ?vs"
    using b a by blast
  have h2: "always (ok []) ?q () = (Replied (okBody []), ())
      \<and> status200 (okBody []) \<and> noData (okBody [])"
    by (simp add: a ob noData_rowsOf)
  have m: "map idAndTitle ?vs = [\<lparr>favId = PStr ''42'', favTitle = PStr ''Tomato Soup''\<rparr>,
                   \<lparr>favId = PStr ''7'', favTitle = PStr ''Pesto''\<rparr>]"
    by (simp add: idAndTitle_def exampleRecipe_def)
  note t = findFavoriteRecipesForUser_result
    [where userVertex = exampleUser and name = "PStr ''U1''" and c = exampleClient and n = 5
       and s = "()" and s' = "()", rule_format, OF n]
  note t1 = t [where rp = "always (ok (map (\<lambda>v. Single (V v)) ?vs))" and b = ?b and vs = ?vs,
     THEN conjunct2, THEN conjunct2, THEN conjunct1, rule_format, OF h1]
  note t2 = t [where rp = "always (ok [])" and b = "okBody []",
     THEN conjunct2, THEN conjunct2, THEN conjunct2, rule_format, OF h2]
  note t3 = t [where rp = "always (ok [])", THEN conjunct1]
  from t1 t2 t3 n b h2 show ?thesis
    unfolding q m by (simp add: ob)
qed

subsection \<open>Recommended recipes\<close>

text \<open>
  Claim C1. The claim holds for every recipe key but the names of the properties of
  \<^verbatim>\<open>Object.prototype\<close>. For the one path whose recipe is named \<^verbatim>\<open>constructor\<close> and the
  limit 1, \<^verbatim>\<open>recipeHash[recipeId]\<close> is the inherited constructor function, so the code takes
  the path for a repeat of a recipe it has emitted and returns no recipe, where the claim
  has the first occurrence emitted with a count of 1. The same path with the recipe named
  \<^verbatim>\<open>42\<close> is emitted.
\<close>

theorem getRecommendedRecipes_inherited_key:
  "getRecommendedRecipes (always (ok [examplePath ''constructor''])) exampleClient
     (RecommendedRecipes ''ingredient'' ''basil'' ''U1'') 1 () = (Resolved [], ())
   \<and> getRecommendedRecipes (always (ok [examplePath ''42''])) exampleClient
       (RecommendedRecipes ''ingredient'' ''basil'' ''U1'') 1 ()
     = (Resolved [\<lparr>recId = PStr ''42'', recTitle = PStr ''Soup'', recommendedUserCount = 1\<rparr>], ())"
  by (simp add: getRecommendedRecipes_def thenP_def runGremlinQuery_def request_def always_def
      ok_def okBody_def statusCheck_def hasRows_def rowsOf_def settle_def recommendedOf_def
      recommendStep_def examplePath_def lookupHash_def objectPrototypeKeys_def resolve_def
      reject_def)

subsection \<open>Reading the text of a script back\<close>

lemma prefixed_append [simp]: "prefixed p (p @ s) = Some s"
  by (induction p) auto

lemma passes_Nil: "passes [] []"
  by (simp add: passes_def option.map_id0 id_def [symmetric])

lemma passes_append:
  assumes "passes a x" and "passes b y"
  shows "passes (a @ b) (x @ y)"
  unfolding passes_def
proof
  fix rest
  from assms show "stringLiteral ((a @ b) @ rest)
      = map_option (\<lambda>(t, r). ((x @ y) @ t, r)) (stringLiteral rest)"
    by (cases "stringLiteral rest") (auto simp: passes_def)
qed

lemma passes_plainChar: "plainChar ch \<Longrightarrow> passes [ch] [ch]"
  by (simp add: passes_def plainChar_def)

lemma passes_escape: "unescaped e = Some x \<Longrightarrow> passes [backslash, e] [x]"
  by (simp add: passes_def backslash_def dquote_def dollar_def)

lemma passes_concat:
  "(\<And>ch. ch \<in> set s \<Longrightarrow> passes (enc ch) (dec ch)) \<Longrightarrow>
   passes (concat (map enc s)) (concat (map dec s))"
  by (induction s) (simp_all add: passes_Nil passes_append)

lemma passes_literal: "passes s t \<Longrightarrow> stringLiteral (s @ dquote # rest) = Some (t, rest)"
  by (simp add: passes_def)

lemma passes_plain: "plain s \<Longrightarrow> passes s s"
  using passes_concat [of s "\<lambda>ch. [ch]" "\<lambda>ch. [ch]"]
  by (simp add: plain_def list_all_iff passes_plainChar)

lemma stringLiteral_plain [simp]:
  "plain s \<Longrightarrow> stringLiteral (s @ dquote # rest) = Some (s, rest)"
  by (simp add: passes_literal passes_plain)

declare showNat.simps [simp del]

lemma isDigit_digit: "d < 10 \<Longrightarrow> isDigit (char_of (48 + d :: nat))"
  by (simp add: isDigit_def)

lemma digitValue_digit: "d < 10 \<Longrightarrow> digitValue (char_of (48 + d :: nat)) = d"
  by (simp add: digitValue_def)

lemma showNat_small: "n < 10 \<Longrightarrow> showNat n = [char_of (48 + n)]"
  by (subst showNat.simps) simp

lemma showNat_large:
  "\<not> n < 10 \<Longrightarrow> showNat n = showNat (n div 10) @ [char_of (48 + n mod 10)]"
  by (subst showNat.simps) simp

lemma showNat_digits: "list_all isDigit (showNat n)"
proof (induction n rule: showNat.induct)
  case (1 n)
  show ?case
  proof (cases "n < 10")
    case True
    then show ?thesis by (simp add: showNat_small isDigit_digit)
  next
    case False
    have "n mod 10 < 10" by simp
    with False 1 show ?thesis
      by (simp add: showNat_large isDigit_digit)
  qed
qed

lemma showNat_nonempty [simp]: "showNat n \<noteq> []"
  by (cases "n < 10") (simp_all add: showNat_small showNat_large)

lemma showNat_value: "foldl (\<lambda>m ch. 10 * m + digitValue ch) 0 (showNat n) = n"
proof (induction n rule: showNat.induct)
  case (1 n)
  show ?case
  proof (cases "n < 10")
    case True
    then show ?thesis by (simp add: showNat_small digitValue_digit)
  next
    case False
    have "n mod 10 < 10" by simp
    with False 1 show ?thesis
      by (simp add: showNat_large digitValue_digit)
  qed
qed

lemma showNat_leading: "hd (showNat n) = CHR ''0'' \<Longrightarrow> n = 0"
proof (induction n rule: showNat.induct)
  case (1 n)
  show ?case
  proof (cases "n < 10")
    case True
    with 1(2) have "char_of (48 + n) = (CHR ''0'' :: char)" by (simp add: showNat_small)
    then have "(of_char (char_of (48 + n) :: char) :: nat) = of_char (CHR ''0'')" by simp
    with True show ?thesis by simp
  next
    case False
    with 1(2) have "hd (showNat (n div 10)) = CHR ''0''" by (simp add: showNat_large)
    with 1(1) False have "n div 10 = 0" by simp
    with False show ?thesis by simp
  qed
qed

lemma natural_showNat [simp]:
  assumes "noDigitAhead rest"
  shows "natural (showNat n @ rest) = Some (n, rest)"
proof -
  from assms have r: "takeWhile isDigit rest = []" "dropWhile isDigit rest = rest"
    by (cases rest; simp add: noDigitAhead_def)+
  have d: "\<forall>ch\<in>set (showNat n). isDigit ch"
    using showNat_digits [of n] by (simp add: list_all_iff)
  have t: "takeWhile isDigit (showNat n @ rest) = showNat n"
    using d by (simp add: takeWhile_append2 r)
  have q: "dropWhile isDigit (showNat n @ rest) = rest"
    using d by (simp add: dropWhile_append2 r)
  have z: "\<not> (hd (showNat n) = CHR ''0'' \<and> 1 < length (showNat n))"
  proof
    assume a: "hd (showNat n) = CHR ''0'' \<and> 1 < length (showNat n)"
    then have "n = 0" using showNat_leading by blast
    with a show False by (simp add: showNat_small)
  qed
  show ?thesis
    unfolding natural_def t q using z by (simp add: showNat_value Let_def)
qed

lemma natural_alone [simp]: "natural (showNat n) = Some (n, [])"
  using natural_showNat [of "[]" n] by (simp add: noDigitAhead_def)

lemma showNat_first: "\<exists>ch cs. showNat n = ch # cs \<and> isDigit ch"
  using showNat_digits [of n] showNat_nonempty [of n]
  by (cases "showNat n") auto

lemma propertyValue_number [simp]:
  assumes "noDigitAhead rest"
  shows "propertyValue (showInt n @ rest) = Some (PNum n, rest)"
proof (cases "n < 0")
  case True
  then show ?thesis
    using natural_showNat [OF assms, of "nat (- n)"]
    by (simp add: propertyValue_def showInt_def dquote_def)
next
  case False
  obtain ch cs where c: "showNat (nat n) = ch # cs" "isDigit ch"
    using showNat_first by blast
  then have "ch \<noteq> dquote" "ch \<noteq> CHR ''-''"
    by (auto simp: isDigit_def dquote_def)
  with False c(1) natural_showNat [OF assms, of "nat n"] show ?thesis
    by (simp add: propertyValue_def showInt_def)
qed

lemma propertyValue_string:
  assumes "passes (escapeStringValue s) t"
  shows "propertyValue (renderValue (PStr s) @ rest) = Some (PStr t, rest)"
  using passes_literal [OF assms, of rest]
  by (simp add: propertyValue_def dquote_def)

lemma argClause_clauseText: \<open>argClause = clauseText '', "'' []\<close>
  by (rule ext) (simp add: argClause_def clauseText_def)

lemma propertyClause_clauseText: \<open>propertyClause = clauseText ''.property("'' '')''\<close>
  by (rule ext) (simp add: propertyClause_def clauseText_def)

lemma stringLiteral_plain' [simp]:
  "plain s \<Longrightarrow> stringLiteral (s @ CHR 0x22 # rest) = Some (s, rest)"
  using stringLiteral_plain [of s rest] by (simp add: dquote_def)

lemma propertyValue_readsAs:
  assumes "readsAs (k, v) (k', v')" and "noDigitAhead rest"
  shows "propertyValue (renderValue v @ rest) = Some (v', rest)"
proof (cases v)
  case (PStr s)
  with assms(1) obtain t where "v' = PStr t" "passes (escapeStringValue s) t"
    by (auto simp: readsAs_def)
  with PStr propertyValue_string [of s t rest] show ?thesis by simp
next
  case (PNum n)
  with assms show ?thesis by (simp add: readsAs_def)
qed

lemma clauses_clauseText:
  assumes "list_all2 readsAs ps ps'"
    and "prefixed opening rest = None"
    and "closing \<noteq> [] \<longrightarrow> (\<forall>x. noDigitAhead (closing @ x))"
    and "closing = [] \<longrightarrow> noDigitAhead rest \<and> (\<forall>x. noDigitAhead (opening @ x))"
    and "length (concat (map (clauseText opening closing) ps) @ rest) < n"
  shows "clauses opening closing n (concat (map (clauseText opening closing) ps) @ rest)
         = Some (ps', rest)"
  using assms(1,5)
proof (induction ps ps' arbitrary: n rule: list_all2_induct)
  case Nil
  then obtain m where "n = Suc m" by (cases n) auto
  with assms(2) show ?case by simp
next
  case (Cons kv ps kv' ps')
  from Cons.prems obtain m where n: "n = Suc m" by (cases n) auto
  let ?tail = "concat (map (clauseText opening closing) ps) @ rest"
  have ahead: "noDigitAhead (closing @ ?tail)"
  proof (cases "closing = []")
    case True
    with assms(4) show ?thesis
      by (cases ps) (simp_all add: clauseText_def)
  next
    case False
    with assms(3) show ?thesis by simp
  qed
  from Cons.hyps(1) have k: "plain (fst kv)" "fst kv' = fst kv" by (simp_all add: readsAs_def)
  from Cons.hyps(1) have "readsAs (fst kv, snd kv) (fst kv', snd kv')" by simp
  from propertyValue_readsAs [OF this ahead]
  have v: "propertyValue (renderValue (snd kv) @ closing @ ?tail) = Some (snd kv', closing @ ?tail)" .
  have "0 < length (clauseText opening closing kv)" by (simp add: clauseText_def)
  moreover from Cons.prems n
  have "length (clauseText opening closing kv) + length ?tail < Suc m" by simp
  ultimately have "length ?tail < m" by linarith
  from Cons.IH [OF this] have ih: "clauses opening closing m ?tail = Some (ps', rest)" .
  have t: "concat (map (clauseText opening closing) (kv # ps)) @ rest
           = opening @ fst kv @ CHR 0x22 # CHR '','' # CHR '' ''
               # renderValue (snd kv) @ closing @ ?tail"
    by (simp add: clauseText_def)
  show ?case
    unfolding n t
    by (simp add: k v ih) (simp add: k(2) [symmetric])
qed

lemma noDigitAhead_simps [simp]:
  "noDigitAhead []" "noDigitAhead (ch # s) = (\<not> isDigit ch)"
  by (simp_all add: noDigitAhead_def)

lemma natural_none [simp]: "\<not> isDigit ch \<Longrightarrow> natural (ch # s) = None"
  by (simp add: natural_def)

lemma orElse_simps [simp]: "orElse None y = y" "orElse (Some x) y = Some x"
  by (simp_all add: orElse_def)

lemma parseTraversal_FindEdgePath:
  "parseTraversal (renderTraversal (FindEdgePath ov iv)) = Some (FindEdgePath ov iv)"
  by (simp add: parseTraversal_def isDigit_def)

lemma parseTraversal_FindVertices:
  assumes "plain l" and "plain p" and "plain x"
  shows "parseTraversal (renderTraversal (FindVertices l p x)) = Some (FindVertices l p x)"
  using assms by (simp add: parseTraversal_def isDigit_def)

lemma parseTraversal_FavoriteRecipes:
  assumes "plain name"
  shows "parseTraversal (renderTraversal (FavoriteRecipes name n)) = Some (FavoriteRecipes name n)"
  using assms by (simp add: parseTraversal_def isDigit_def plain_def plainChar_def
      backslash_def dquote_def dollar_def)

lemma parseTraversal_RecommendedRecipes:
  assumes "plain l" and "plain k" and "plain name"
  shows "parseTraversal (renderTraversal (RecommendedRecipes l k name))
         = Some (RecommendedRecipes l k name)"
  using assms by (simp add: parseTraversal_def isDigit_def backslash_def dquote_def dollar_def)

lemma parseTraversal_render:
  "plainTraversal t \<Longrightarrow> parseTraversal (renderTraversal t) = Some t"
  by (cases t)
    (simp_all only: plainTraversal_def traversal.case parseTraversal_FindVertices
      parseTraversal_FindEdgePath parseTraversal_FavoriteRecipes
      parseTraversal_RecommendedRecipes)

lemma parseStatement_Traversal:
  "plainTraversal t \<Longrightarrow> parseStatement (renderStatement (Traversal t)) = Some (Traversal t)"
  by (simp add: parseStatement_def parseTraversal_render)

declare clauses.simps [simp del]

lemma clauses_arguments [simp]:
  assumes "list_all2 readsAs ps ps'"
    and \<open>length (concat (map argClause ps) @ '');'') < n\<close>
  shows \<open>clauses '', "'' [] n (concat (map argClause ps) @ '');'') = Some (ps', '');'')\<close>
  unfolding argClause_clauseText
  by (rule clauses_clauseText [OF assms(1)])
    (use assms(2) in \<open>simp_all add: isDigit_def argClause_clauseText\<close>)

lemma clauses_properties [simp]:
  assumes "list_all2 readsAs ps ps'"
    and \<open>length (concat (map propertyClause ps) @ '';'') < n\<close>
  shows \<open>clauses ''.property("'' '')'' n (concat (map propertyClause ps) @ '';'')
           = Some (ps', '';'')\<close>
  unfolding propertyClause_clauseText
  by (rule clauses_clauseText [OF assms(1)])
    (use assms(2) in \<open>simp_all add: isDigit_def propertyClause_clauseText\<close>)

lemma parseStatement_AddVertex:
  assumes "plain l" and "list_all2 readsAs ps ps'"
  shows "parseStatement (renderStatement (AddVertex l ps)) = Some (AddVertex l ps')"
  using assms by (simp add: parseStatement_def)

lemma parseStatement_AddEdge:
  assumes "plain l" and "list_all2 readsAs ps ps'"
  shows "parseStatement (renderStatement (AddEdge l ov iv ps)) = Some (AddEdge l ov iv ps')"
  using assms by (simp add: parseStatement_def isDigit_def)

lemma plain_showNat [simp]: "plain (showNat n)"
proof -
  have "isDigit ch \<Longrightarrow> plainChar ch" for ch
    by (auto simp: isDigit_def plainChar_def backslash_def dquote_def dollar_def)
  with showNat_digits [of n] show ?thesis
    by (auto simp: plain_def list_all_iff)
qed

lemma parseStatement_SetEdgeProperties:
  assumes "list_all2 readsAs ps ps'"
  shows "parseStatement (renderStatement (SetEdgeProperties i ps)) = Some (SetEdgeProperties i ps')"
  using assms by (simp add: parseStatement_def isDigit_def)

lemma parseStatement_render:
  "plainStatement st st' \<Longrightarrow> parseStatement (renderStatement st) = Some st'"
  by (cases st)
    (auto simp only: plainStatement_def statement.case parseStatement_Traversal
      parseStatement_AddVertex parseStatement_AddEdge parseStatement_SetEdgeProperties)

lemma renderStatement_not_zero: \<open>renderStatement st \<noteq> ''0;''\<close>
  by (cases st) simp_all

lemma parseScript_InGraph:
  assumes "plain i"
  shows "parseScript (render (InGraph i st))
         = map_option (InGraph i) (parseStatement (renderStatement st))"
  using assms renderStatement_not_zero [of st]
  by (cases "parseStatement (renderStatement st)") (simp_all add: parseScript_def)

lemma parseScript_OpenGraph:
  "plain i \<Longrightarrow> parseScript (render (OpenGraph i)) = Some (OpenGraph i)"
  by (simp add: parseScript_def)

lemma parseScript_CreateGraph:
  "plain i \<Longrightarrow> parseScript (render (CreateGraph i)) = Some (CreateGraph i)"
  by (simp add: parseScript_def)

lemma hasEscapedQuote_Cons: "a \<noteq> backslash \<Longrightarrow> hasEscapedQuote (a # s) = hasEscapedQuote s"
  by (cases s) simp_all

lemma hasEscapedQuote_escape:
  "b \<noteq> dquote \<Longrightarrow> hasEscapedQuote (backslash # b # s) = hasEscapedQuote (b # s)"
  by simp

lemma escapeStringValue_blocks:
  "\<not> hasEscapedQuote v \<Longrightarrow> escapeStringValue v = concat (map escapeQuoteDollar v)"
  by (simp add: escapeStringValue_def replaceEscapedQuotes_id replace_quotes_dollars)

lemma unescaped_simps [simp]:
  "unescaped dquote = Some dquote" "unescaped dollar = Some dollar"
  "unescaped backslash = Some backslash" "unescaped (CHR 0x27) = Some (CHR 0x27)"
  by (simp_all add: unescaped_def)

lemma passes_escapeQuoteDollar:
  assumes "ch \<noteq> backslash" and "ch \<noteq> CHR 0x0A" and "ch \<noteq> CHR 0x0D"
  shows "passes (escapeQuoteDollar ch) [ch]"
proof -
  consider "ch = dquote" | "ch = dollar" | "plainChar ch"
    using assms by (auto simp: plainChar_def)
  then show ?thesis
  proof cases
    case 1
    then show ?thesis by (simp add: escapeQuoteDollar_def passes_escape)
  next
    case 2
    moreover have "dollar \<noteq> dquote" by (simp add: dollar_def dquote_def)
    ultimately show ?thesis by (simp add: escapeQuoteDollar_def passes_escape)
  next
    case 3
    then show ?thesis by (simp add: escapeQuoteDollar_def passes_plainChar plainChar_def)
  qed
qed

lemma textual_no_escaped_quote: "textual s \<Longrightarrow> \<not> hasEscapedQuote s"
  by (induction s) (simp_all add: textual_def hasEscapedQuote_Cons)

lemma passes_escaped: "textual s \<Longrightarrow> passes (escapeStringValue s) s"
  using passes_concat [of s escapeQuoteDollar "\<lambda>ch. [ch]"]
  by (simp add: escapeStringValue_blocks textual_no_escaped_quote)
    (simp add: textual_def list_all_iff passes_escapeQuoteDollar)

lemma plain_textual: "plain s \<Longrightarrow> textual s"
  by (auto simp: plain_def textual_def plainChar_def list_all_iff)

lemma plainProps_readsAs: "plainProps ps \<Longrightarrow> list_all2 readsAs ps ps"
proof (induction ps)
  case Nil
  then show ?case by simp
next
  case (Cons kv ps)
  then have "readsAs kv kv"
    by (cases "snd kv") (auto simp: plainProps_def readsAs_def passes_escaped)
  with Cons show ?case by (simp add: plainProps_def)
qed

text \<open>The title and the detail of a recipe, as \<^verbatim>\<open>addRecipe\<close> escapes them.\<close>

lemma escapeNewlines_append:
  "escapeNewlines (a @ b) = escapeNewlines a @ escapeNewlines b"
  by (simp add: escapeNewlines_def)

lemma escapeNewlines_escapeApostrophes:
  "escapeNewlines (escapeApostrophes s) = concat (map detailBlock s)"
  by (induction s)
    (simp_all add: escapeApostrophes_def escapeNewlines_def detailBlock_def backslash_def)

lemma escapeApostrophes_blocks: "escapeApostrophes s = concat (map titleBlock s)"
  by (induction s) (simp_all add: escapeApostrophes_def titleBlock_def)

lemma title_no_escaped_quote: "textual s \<Longrightarrow> \<not> hasEscapedQuote (concat (map titleBlock s))"
  by (induction s)
    (simp_all add: textual_def titleBlock_def hasEscapedQuote_Cons dquote_def backslash_def)

lemma detail_no_escaped_quote:
  "textualLines s \<Longrightarrow> \<not> hasEscapedQuote (concat (map detailBlock s))"
  by (induction s)
    (simp_all add: textualLines_def detailBlock_def hasEscapedQuote_Cons dquote_def backslash_def)

lemma concat_map_concat_map:
  "concat (map f (concat (map h s))) = concat (map (\<lambda>ch. concat (map f (h ch))) s)"
  by (induction s) simp_all

lemma passes_title:
  assumes "textual s"
  shows "passes (escapeStringValue (escapeApostrophes s)) s"
proof -
  have b: "passes (concat (map escapeQuoteDollar (titleBlock ch))) [ch]"
    if "ch \<noteq> backslash" "ch \<noteq> CHR 0x0A" "ch \<noteq> CHR 0x0D" for ch
  proof (cases "ch = CHR 0x27")
    case True
    then show ?thesis
      using passes_escape [of "CHR 0x27" "CHR 0x27"]
      by (simp add: titleBlock_def escapeQuoteDollar_def backslash_def dquote_def dollar_def)
  next
    case False
    with that show ?thesis by (simp add: titleBlock_def passes_escapeQuoteDollar)
  qed
  from assms have "passes (concat (map (\<lambda>ch. concat (map escapeQuoteDollar (titleBlock ch))) s))
                     (concat (map (\<lambda>ch. [ch]) s))"
    by (intro passes_concat b) (auto simp: textual_def list_all_iff)
  then show ?thesis
    using assms
    by (simp add: escapeApostrophes_blocks escapeStringValue_blocks title_no_escaped_quote
        concat_map_concat_map)
qed

lemma passes_detail:
  assumes "textualLines s"
  shows "passes (escapeStringValue (escapeNewlines (escapeApostrophes s))) (newlinesAsText s)"
proof -
  have b: "passes (concat (map escapeQuoteDollar (detailBlock ch)))
             (if ch = CHR 0x0A then [backslash, CHR ''n''] else [ch])"
    if "ch \<noteq> backslash" "ch \<noteq> CHR 0x0D" for ch
  proof -
    consider "ch = CHR 0x27" | "ch = CHR 0x0A" | "ch \<noteq> CHR 0x27" "ch \<noteq> CHR 0x0A" by blast
    then show ?thesis
    proof cases
      case 1
      then show ?thesis
        using passes_escape [of "CHR 0x27" "CHR 0x27"]
        by (simp add: detailBlock_def escapeQuoteDollar_def backslash_def dquote_def dollar_def)
    next
      case 2
      have "passes ([backslash, backslash] @ [CHR ''n'']) ([backslash] @ [CHR ''n''])"
        by (intro passes_append passes_escape passes_plainChar)
          (simp_all add: plainChar_def unescaped_def backslash_def dquote_def dollar_def)
      with 2 show ?thesis
        by (simp add: detailBlock_def escapeQuoteDollar_def backslash_def dquote_def dollar_def)
    next
      case 3
      with that show ?thesis by (simp add: detailBlock_def passes_escapeQuoteDollar)
    qed
  qed
  from assms
  have "passes (concat (map (\<lambda>ch. concat (map escapeQuoteDollar (detailBlock ch))) s))
          (concat (map (\<lambda>ch. if ch = CHR 0x0A then [backslash, CHR ''n''] else [ch]) s))"
    by (intro passes_concat b) (auto simp: textualLines_def list_all_iff)
  then show ?thesis
    using assms
    by (simp add: escapeNewlines_escapeApostrophes escapeStringValue_blocks
        detail_no_escaped_quote concat_map_concat_map newlinesAsText_def)
qed

text \<open>The service reads the text of a plain script back as the script.\<close>

lemma posting_service:
  assumes "plain i" and "plainStatement st st'"
  shows "posting service (InGraph i st) g = exec st' g"
  unfolding posting_def service_def parseScript_InGraph [OF assms(1)]
    parseStatement_render [OF assms(2)]
  by simp

lemma runGremlinQuery_posting:
  assumes "plain (graphIdText c)" and "plainStatement st st'"
  shows "runGremlinQuery (posting service) c st = runGremlinQuery serve c st'"
  by (rule ext) (simp add: runGremlinQuery_def thenP_def request_def posting_service [OF assms])

subsection \<open>The operations against the reference graph service\<close>

lemma okBody_simps [simp]:
  "status200 (okBody rows)" "rowsOf (okBody rows) = rows" "hasRows (okBody rows) = (rows \<noteq> [])"
  "firstRow (okBody rows) = (case rows of [] \<Rightarrow> None | r # _ \<Rightarrow> Some r)"
  by (simp_all add: status200_def okBody_def rowsOf_def hasRows_def firstRow_def)

lemma runGremlinQuery_serve_traversal:
  "run t g = Some rows \<Longrightarrow>
   runGremlinQuery serve c (Traversal t) g = (Resolved (okBody rows), g)"
  by (simp add: runGremlinQuery_replied [where b = "okBody rows" and s' = g] ok_def)

lemma runGremlinQuery_serve_failed:
  "exec st g = (Failed, g') \<Longrightarrow>
   runGremlinQuery serve c st g = (Rejected TransportError, g')"
  by (simp add: runGremlinQuery_def thenP_def request_def)

lemma createVertex_serve:
  "createVertex serve c v g =
     (Resolved (Some (Single (V \<lparr>vid = nextId g, vlabel = vsLabel v, vprops = vsProps v\<rparr>))),
      withVertex g \<lparr>vid = nextId g, vlabel = vsLabel v, vprops = vsProps v\<rparr>)"
  by (simp add: createVertex_def thenP_def resolve_def withVertex_def Let_def ok_def
      runGremlinQuery_replied
        [where b = "okBody [Single (V \<lparr>vid = nextId g, vlabel = vsLabel v, vprops = vsProps v\<rparr>)]"
           and s' = "withVertex g \<lparr>vid = nextId g, vlabel = vsLabel v, vprops = vsProps v\<rparr>"])

text \<open>Looking a vertex up by label and key.\<close>

lemma findVertices_serve:
  "runGremlinQuery serve c (Traversal (FindVertices l k x)) g =
     (Resolved (okBody (map (\<lambda>v. Single (V v)) (storedVertices g l k x))), g)"
  by (simp add: runGremlinQuery_serve_traversal storedVertices_def)

lemma addVertexIfNotExists_serve_found:
  assumes "storedVertices g (vsLabel v) k (propertyText v k) = u # us"
  shows "addVertexIfNotExists serve c v k g = (Resolved (Some (Single (V u))), g)"
  using assms
  by (simp add: addVertexIfNotExists_def thenP_def findVertices_serve resolve_def)

lemma addVertexIfNotExists_serve_absent:
  assumes "storedVertices g (vsLabel v) k (propertyText v k) = []"
  shows "addVertexIfNotExists serve c v k g = createVertex serve c v g"
  using assms
  by (simp add: addVertexIfNotExists_def thenP_def findVertices_serve resolve_def)

lemma addVertexIfNotExists_script_found:
  assumes "rp (InGraph (graphIdText c)
                (Traversal (FindVertices (vsLabel v) k (propertyText v k)))) s = (Replied b, s')"
    and "status200 b" "\<not> noData b"
  shows "addVertexIfNotExists (logging rp) c v k (s, []) =
           (Resolved (firstRow b),
            (s', [InGraph (graphIdText c)
                    (Traversal (FindVertices (vsLabel v) k (propertyText v k)))]))"
  using assms
  by (simp add: addVertexIfNotExists_def thenP_def runGremlinQuery_logging
      runGremlinQuery_replied hasRows_noData resolve_def)

lemma addVertexIfNotExists_script_absent:
  assumes "rp (InGraph (graphIdText c)
                (Traversal (FindVertices (vsLabel v) k (propertyText v k)))) s = (Replied b, s')"
    and "status200 b" "noData b"
  shows "addVertexIfNotExists rp c v k s = createVertex rp c v s'"
  using assms
  by (simp add: addVertexIfNotExists_def thenP_def runGremlinQuery_replied hasRows_noData)

lemma storedVertices_withVertex:
  "storedVertices (withVertex g u) l k x =
     storedVertices g l k x @ (if vlabel u = l \<and> hasValue u k x then [u] else [])"
  by (simp add: storedVertices_def withVertex_def)

lemma propertyText_string:
  "k \<noteq> ''label'' \<Longrightarrow> map_of (vsProps v) k = Some (PStr x) \<Longrightarrow> propertyText v k = x"
  by (simp add: propertyText_def)

lemma addVertexIfNotExists_serve_twice:
  assumes k: "k \<noteq> ''label''" and x: "map_of (vsProps v) k = Some (PStr x)"
    and 1: "addVertexIfNotExists serve c v k g = (r1, g1)"
  shows "addVertexIfNotExists serve c v k g1 = (r1, g1)
         \<and> (\<exists>u. r1 = Resolved (Some (Single (V u))) \<and> u \<in> set (vertices g1)
                 \<and> vlabel u = vsLabel v \<and> hasValue u k x)
         \<and> length (storedVertices g1 (vsLabel v) k x)
             = max 1 (length (storedVertices g (vsLabel v) k x))"
proof (cases "storedVertices g (vsLabel v) k (propertyText v k)")
  case Nil
  let ?u = "\<lparr>vid = nextId g, vlabel = vsLabel v, vprops = vsProps v\<rparr>"
  from Nil 1 have r: "r1 = Resolved (Some (Single (V ?u)))" and g: "g1 = withVertex g ?u"
    by (simp_all add: addVertexIfNotExists_serve_absent createVertex_serve)
  have h: "hasValue ?u k x" using x by (simp add: hasValue_def)
  from Nil h have s: "storedVertices g1 (vsLabel v) k (propertyText v k) = [?u]"
    unfolding g by (simp add: storedVertices_withVertex propertyText_string [OF k x])
  have 2: "addVertexIfNotExists serve c v k g1 = (r1, g1)"
    using addVertexIfNotExists_serve_found [OF s] r by simp
  have 3: "?u \<in> set (vertices g1)" unfolding g by (simp add: withVertex_def)
  have 4: "length (storedVertices g1 (vsLabel v) k x)
             = max 1 (length (storedVertices g (vsLabel v) k x))"
    using s Nil by (simp add: propertyText_string [OF k x])
  from 2 3 4 h r show ?thesis by simp
next
  case (Cons u us)
  from Cons 1 have r: "r1 = Resolved (Some (Single (V u)))" and g: "g1 = g"
    by (simp_all add: addVertexIfNotExists_serve_found [OF Cons])
  from Cons have "u \<in> set (storedVertices g (vsLabel v) k x)"
    by (simp add: propertyText_string [OF k x])
  then have "u \<in> set (vertices g) \<and> vlabel u = vsLabel v \<and> hasValue u k x"
    by (simp add: storedVertices_def)
  then show ?thesis
    using Cons r g by (simp add: addVertexIfNotExists_serve_found [OF Cons]
        propertyText_string [OF k x])
qed

lemma serve_FindVertices:
  "serve (InGraph i (Traversal (FindVertices l k x))) g =
     (Replied (okBody (map (\<lambda>v. Single (V v)) (storedVertices g l k x))), g)"
  by (simp add: storedVertices_def ok_def)

lemma addVertexIfNotExists_serve_found_script:
  assumes "storedVertices g (vsLabel v) k (propertyText v k) = u # us"
  shows "addVertexIfNotExists (logging serve) c v k (g, []) =
           (Resolved (Some (Single (V u))),
            (g, [InGraph (graphIdText c)
                   (Traversal (FindVertices (vsLabel v) k (propertyText v k)))]))"
proof -
  let ?b = "okBody (map (\<lambda>v. Single (V v))
              (storedVertices g (vsLabel v) k (propertyText v k)))"
  have r: "serve (InGraph (graphIdText c)
                   (Traversal (FindVertices (vsLabel v) k (propertyText v k)))) g = (Replied ?b, g)"
    by (rule serve_FindVertices)
  have s: "status200 ?b" by simp
  have n: "\<not> noData ?b" using assms by (simp add: noData_rowsOf)
  from addVertexIfNotExists_script_found [where rp = serve and c = c and v = v and k = k, OF r s n]
    assms
  show ?thesis by simp
qed

text \<open>The same against the service that reads the text.\<close>

lemma createVertex_service:
  assumes "plain (graphIdText c)" and "plain (vsLabel v)"
    and "list_all2 readsAs (vsProps v) ps'"
  shows "createVertex (posting service) c v = createVertex serve c (v\<lparr>vsProps := ps'\<rparr>)"
proof -
  from assms(2,3) have "plainStatement (AddVertex (vsLabel v) (vsProps v)) (AddVertex (vsLabel v) ps')"
    by (auto simp: plainStatement_def)
  from runGremlinQuery_posting [OF assms(1) this] show ?thesis
    by (simp add: createVertex_def)
qed

lemma findVertices_posting:
  assumes "plain (graphIdText c)" and "plain l" and "plain k" and "plain x"
  shows "runGremlinQuery (posting service) c (Traversal (FindVertices l k x))
         = runGremlinQuery serve c (Traversal (FindVertices l k x))"
  using assms
  by (intro runGremlinQuery_posting) (simp_all add: plainStatement_def plainTraversal_def)

lemma addVertexIfNotExists_service_reads:
  assumes "plain (graphIdText c)" and "plain (vsLabel v)" and "plain k"
    and "plain (propertyText v k)" and "list_all2 readsAs (vsProps v) ps'"
    and "propertyText (v\<lparr>vsProps := ps'\<rparr>) k = propertyText v k"
  shows "addVertexIfNotExists (posting service) c v k
         = addVertexIfNotExists serve c (v\<lparr>vsProps := ps'\<rparr>) k"
  by (rule ext)
    (simp add: addVertexIfNotExists_def findVertices_posting [OF assms(1-4)]
       createVertex_service [OF assms(1,2,5)] assms(6) cong: if_cong)

lemma addVertexIfNotExists_service:
  assumes "plain (graphIdText c)" and "plain (vsLabel v)" and "plain k"
    and "plain (propertyText v k)" and "plainProps (vsProps v)"
  shows "addVertexIfNotExists (posting service) c v k = addVertexIfNotExists serve c v k"
  using addVertexIfNotExists_service_reads [OF assms(1-4) plainProps_readsAs [OF assms(5)]]
  by simp

lemma service_FindVertices:
  assumes "plain i" and "plain l" and "plain k" and "plain x"
  shows "posting service (InGraph i (Traversal (FindVertices l k x))) g =
     (Replied (okBody (map (\<lambda>v. Single (V v)) (storedVertices g l k x))), g)"
proof -
  from assms(2-4)
  have "plainStatement (Traversal (FindVertices l k x)) (Traversal (FindVertices l k x))"
    by (simp add: plainStatement_def plainTraversal_def)
  from posting_service [OF assms(1) this] show ?thesis
    by (simp add: storedVertices_def ok_def)
qed

lemma addVertexIfNotExists_service_found_script:
  assumes "plain (graphIdText c)" and "plain (vsLabel v)" and "plain k"
    and "plain (propertyText v k)"
    and "storedVertices g (vsLabel v) k (propertyText v k) = u # us"
  shows "addVertexIfNotExists (logging (posting service)) c v k (g, []) =
           (Resolved (Some (Single (V u))),
            (g, [InGraph (graphIdText c)
                   (Traversal (FindVertices (vsLabel v) k (propertyText v k)))]))"
proof -
  let ?b = "okBody (map (\<lambda>v. Single (V v))
              (storedVertices g (vsLabel v) k (propertyText v k)))"
  have r: "posting service (InGraph (graphIdText c)
                   (Traversal (FindVertices (vsLabel v) k (propertyText v k)))) g = (Replied ?b, g)"
    by (rule service_FindVertices [OF assms(1-4)])
  have s: "status200 ?b" by simp
  have n: "\<not> noData ?b" using assms(5) by (simp add: noData_rowsOf)
  from addVertexIfNotExists_script_found
    [where rp = "posting service" and c = c and v = v and k = k, OF r s n] assms(5)
  show ?thesis by simp
qed

text \<open>
  When the lookup by label and unique key has rows, \<^verbatim>\<open>addVertexIfNotExists\<close> resolves to
  the first of them and issues no script but the lookup; when it has none, it hands over
  to \<^verbatim>\<open>createVertex\<close>. Against the graph service, for a graph name, a label, a key and
  a value of the key that stand for themselves in the text of the lookup, and properties
  that do so in the text of the creation: when a vertex with the label and the value of
  the key is stored, the call returns the first such vertex, changes nothing and issues
  only the lookup; and whatever the graph was, a second call for the same vertex returns
  what the first call returned, leaves the graph as the first call left it and issues only
  the lookup, so that the graph holds as many vertices of the label and value as before,
  or one when it held none. The unique key holds a string, as every caller in the store
  has it.
\<close>

lemma addVertexIfNotExists_idempotent:
  "(rp (InGraph (graphIdText c) (Traversal (FindVertices (vsLabel v) k (propertyText v k)))) s
       = (Replied b, s')
     \<and> status200 b \<and> \<not> noData b
     \<longrightarrow> addVertexIfNotExists (logging rp) c v k (s, []) =
           (Resolved (firstRow b),
            (s', [InGraph (graphIdText c)
                    (Traversal (FindVertices (vsLabel v) k (propertyText v k)))]))
         \<and> firstRow b \<noteq> None)
   \<and> (rp (InGraph (graphIdText c) (Traversal (FindVertices (vsLabel v) k (propertyText v k)))) s
       = (Replied b, s')
     \<and> status200 b \<and> noData b
     \<longrightarrow> addVertexIfNotExists rp c v k s = createVertex rp c v s')
   \<and> (plain (graphIdText c) \<and> plain (vsLabel v) \<and> plain k \<and> plain (propertyText v k)
       \<and> storedVertices g (vsLabel v) k (propertyText v k) = u # us
     \<longrightarrow> addVertexIfNotExists (logging (posting service)) c v k (g, []) =
           (Resolved (Some (Single (V u))),
            (g, [InGraph (graphIdText c)
                   (Traversal (FindVertices (vsLabel v) k (propertyText v k)))])))
   \<and> (plain (graphIdText c) \<and> plain (vsLabel v) \<and> plain k \<and> plain x
       \<and> plainProps (vsProps v)
       \<and> k \<noteq> ''label'' \<and> map_of (vsProps v) k = Some (PStr x)
       \<and> addVertexIfNotExists (posting service) c v k g = (r, g')
     \<longrightarrow> addVertexIfNotExists (logging (posting service)) c v k (g', []) =
           (r, (g', [InGraph (graphIdText c)
                        (Traversal (FindVertices (vsLabel v) k (propertyText v k)))]))
         \<and> (\<exists>w. r = Resolved (Some (Single (V w))) \<and> w \<in> set (vertices g')
                 \<and> vlabel w = vsLabel v \<and> hasValue w k x)
         \<and> length (storedVertices g' (vsLabel v) k x)
             = max 1 (length (storedVertices g (vsLabel v) k x)))"
proof (intro conjI impI)
  assume h: "rp (InGraph (graphIdText c)
                  (Traversal (FindVertices (vsLabel v) k (propertyText v k)))) s = (Replied b, s')
     \<and> status200 b \<and> \<not> noData b"
  then show "addVertexIfNotExists (logging rp) c v k (s, []) =
           (Resolved (firstRow b),
            (s', [InGraph (graphIdText c)
                    (Traversal (FindVertices (vsLabel v) k (propertyText v k)))]))"
    by (simp add: addVertexIfNotExists_script_found)
  from h show "firstRow b \<noteq> None"
    by (simp add: noData_rowsOf firstRow_def split: list.splits)
next
  assume "rp (InGraph (graphIdText c)
                  (Traversal (FindVertices (vsLabel v) k (propertyText v k)))) s = (Replied b, s')
     \<and> status200 b \<and> noData b"
  then show "addVertexIfNotExists rp c v k s = createVertex rp c v s'"
    by (simp add: addVertexIfNotExists_script_absent)
next
  assume "plain (graphIdText c) \<and> plain (vsLabel v) \<and> plain k \<and> plain (propertyText v k)
       \<and> storedVertices g (vsLabel v) k (propertyText v k) = u # us"
  then show "addVertexIfNotExists (logging (posting service)) c v k (g, []) =
           (Resolved (Some (Single (V u))),
            (g, [InGraph (graphIdText c)
                   (Traversal (FindVertices (vsLabel v) k (propertyText v k)))]))"
    by (intro addVertexIfNotExists_service_found_script) simp_all
next
  assume h: "plain (graphIdText c) \<and> plain (vsLabel v) \<and> plain k \<and> plain x
       \<and> plainProps (vsProps v)
       \<and> k \<noteq> ''label'' \<and> map_of (vsProps v) k = Some (PStr x)
       \<and> addVertexIfNotExists (posting service) c v k g = (r, g')"
  then have k: "k \<noteq> ''label''" and x: "map_of (vsProps v) k = Some (PStr x)"
    and p: "plain (graphIdText c)" "plain (vsLabel v)" "plain k" "plainProps (vsProps v)"
    and px: "plain x"
    by simp_all
  from px have pt: "plain (propertyText v k)" by (simp add: propertyText_string [OF k x])
  note e = addVertexIfNotExists_service [OF p(1-3) pt p(4)]
  from h have 1: "addVertexIfNotExists serve c v k g = (r, g')" by (simp add: e)
  note t = addVertexIfNotExists_serve_twice [OF k x 1]
  from t obtain w where w: "r = Resolved (Some (Single (V w)))" "w \<in> set (vertices g')"
    "vlabel w = vsLabel v" "hasValue w k x" by blast
  from t show "\<exists>w. r = Resolved (Some (Single (V w))) \<and> w \<in> set (vertices g')
                 \<and> vlabel w = vsLabel v \<and> hasValue w k x" by blast
  from t show "length (storedVertices g' (vsLabel v) k x)
             = max 1 (length (storedVertices g (vsLabel v) k x))" by blast
  from w have "storedVertices g' (vsLabel v) k (propertyText v k) \<noteq> []"
    by (auto simp: storedVertices_def propertyText_string [OF k x] filter_empty_conv)
  then obtain u' us' where s: "storedVertices g' (vsLabel v) k (propertyText v k) = u' # us'"
    by (cases "storedVertices g' (vsLabel v) k (propertyText v k)") auto
  from t have "addVertexIfNotExists serve c v k g' = (r, g')" by blast
  with addVertexIfNotExists_serve_found [OF s] have "r = Resolved (Some (Single (V u')))"
    by simp
  with addVertexIfNotExists_service_found_script [OF p(1-3) pt s]
  show "addVertexIfNotExists (logging (posting service)) c v k (g', []) =
           (r, (g', [InGraph (graphIdText c)
                        (Traversal (FindVertices (vsLabel v) k (propertyText v k)))]))"
    by simp
qed

lemma exampleClient_plain [simp]: "plain (graphIdText exampleClient)"
  by (simp add: graphIdText_def exampleClient_def plain_def plainChar_def backslash_def
      dquote_def dollar_def)

lemma addVertexIfNotExists_idempotent_example:
  "addVertexIfNotExists (logging (always (ok [Single (V exampleUser)]))) exampleClient
       \<lparr>vsLabel = ''person'', vsProps = [(''name'', PStr ''U1'')]\<rparr> ''name'' ((), [])
     = (Resolved (Some (Single (V exampleUser))),
        ((), [InGraph ''recipes'' (Traversal (FindVertices ''person'' ''name'' ''U1''))]))
   \<and> addVertexIfNotExists (always (ok [])) exampleClient
       \<lparr>vsLabel = ''person'', vsProps = [(''name'', PStr ''U1'')]\<rparr> ''name'' ()
     = (Resolved None, ())
   \<and> addVertexIfNotExists (posting service) exampleClient
       \<lparr>vsLabel = ''person'', vsProps = [(''name'', PStr ''U1'')]\<rparr> ''name''
       \<lparr>vertices = [], edges = [], nextId = 0\<rparr>
     = (Resolved (Some (Single (V exampleUser))),
        \<lparr>vertices = [exampleUser], edges = [], nextId = 1\<rparr>)
   \<and> addVertexIfNotExists (logging (posting service)) exampleClient
       \<lparr>vsLabel = ''person'', vsProps = [(''name'', PStr ''U1'')]\<rparr> ''name''
       (\<lparr>vertices = [exampleUser], edges = [], nextId = 1\<rparr>, [])
     = (Resolved (Some (Single (V exampleUser))),
        (\<lparr>vertices = [exampleUser], edges = [], nextId = 1\<rparr>,
         [InGraph ''recipes'' (Traversal (FindVertices ''person'' ''name'' ''U1''))]))"
proof -
  let ?v = "\<lparr>vsLabel = ''person'', vsProps = [(''name'', PStr ''U1'')]\<rparr>"
  let ?g = "\<lparr>vertices = [], edges = [], nextId = 0\<rparr>"
  let ?g1 = "\<lparr>vertices = [exampleUser], edges = [], nextId = 1\<rparr>"
  let ?q = "InGraph (graphIdText exampleClient)
              (Traversal (FindVertices (vsLabel ?v) ''name'' (propertyText ?v ''name'')))"
  let ?b = "okBody [Single (V exampleUser)]"
  have q: "?q = InGraph ''recipes'' (Traversal (FindVertices ''person'' ''name'' ''U1''))"
    by (simp add: graphIdText_def exampleClient_def propertyText_def)
  have a: "always (ok rows) x () = (Replied (okBody rows), ())" for rows x
    by (simp add: always_def ok_def)
  have h1: "always (ok [Single (V exampleUser)]) ?q () = (Replied ?b, ())
            \<and> status200 ?b \<and> \<not> noData ?b"
    by (simp add: a noData_rowsOf)
  have h2: "always (ok []) ?q () = (Replied (okBody []), ())
            \<and> status200 (okBody []) \<and> noData (okBody [])"
    by (simp add: a noData_rowsOf)
  have pl: "plain ''person''" "plain ''name''" "plain ''U1''" "plainProps (vsProps ?v)"
    by (simp_all add: plain_def plainChar_def plainProps_def textual_def backslash_def
        dquote_def dollar_def)
  have 1: "addVertexIfNotExists (posting service) exampleClient ?v ''name'' ?g
            = (Resolved (Some (Single (V exampleUser))), ?g1)"
    using pl
    by (simp add: addVertexIfNotExists_service propertyText_def
        addVertexIfNotExists_serve_absent createVertex_serve storedVertices_def
        withVertex_def exampleUser_def)
  from pl 1 have h4: "plain (graphIdText exampleClient) \<and> plain (vsLabel ?v) \<and> plain ''name''
       \<and> plain ''U1'' \<and> plainProps (vsProps ?v)
       \<and> ''name'' \<noteq> ''label'' \<and> map_of (vsProps ?v) ''name'' = Some (PStr ''U1'')
       \<and> addVertexIfNotExists (posting service) exampleClient ?v ''name'' ?g
           = (Resolved (Some (Single (V exampleUser))), ?g1)"
    by simp
  note t1 = addVertexIfNotExists_idempotent
    [where rp = "always (ok [Single (V exampleUser)])" and c = exampleClient and v = ?v
       and k = "''name''" and s = "()" and b = ?b and s' = "()",
     THEN conjunct1, rule_format, OF h1, THEN conjunct1]
  note t2 = addVertexIfNotExists_idempotent
    [where rp = "always (ok [])" and c = exampleClient and v = ?v
       and k = "''name''" and s = "()" and b = "okBody []" and s' = "()",
     THEN conjunct2, THEN conjunct1, rule_format, OF h2]
  note t4 = addVertexIfNotExists_idempotent
    [where c = exampleClient and v = ?v and k = "''name''" and x = "''U1''" and g = ?g
       and r = "Resolved (Some (Single (V exampleUser)))" and g' = ?g1,
     THEN conjunct2, THEN conjunct2, THEN conjunct2, rule_format, OF h4, THEN conjunct1]
  have c: "createVertex (always (ok [])) exampleClient ?v () = (Resolved None, ())"
    by (simp add: createVertex_def thenP_def resolve_def
        runGremlinQuery_replied [where b = "okBody []" and s' = "()"] a)
  from t1 t2 t4 1 c show ?thesis
    unfolding q by (simp add: firstRow_def)
qed

text \<open>
  Claim C6. The value of the unique key goes into the text of the lookup as it is and into
  the text of the creation through \<^verbatim>\<open>escapeStringValue\<close>. For the ingredient named
  \<^verbatim>\<open>a\"b\<close> the lookup therefore asks for \<^verbatim>\<open>a"b\<close>, which is what its literal stands for,
  while the creation stores \<^verbatim>\<open>a\"b\<close>: the first call finds no vertex and creates one, and
  the second call, on the graph the first one left, finds none again, issues the creation
  a second time and returns another vertex than the first call. Two calls leave two
  vertices for the one pair of label and key.
\<close>

theorem addVertexIfNotExists_escaped_quote_key:
  "parseScript (render (InGraph ''recipes''
       (Traversal (FindVertices ''ingredient'' ''name'' escapedQuoteKey))))
     = Some (InGraph ''recipes''
         (Traversal (FindVertices ''ingredient'' ''name'' [CHR ''a'', dquote, CHR ''b''])))
   \<and> parseScript (render (InGraph ''recipes''
       (AddVertex ''ingredient'' [(''name'', PStr escapedQuoteKey)])))
     = Some (InGraph ''recipes'' (AddVertex ''ingredient'' [(''name'', PStr escapedQuoteKey)]))
   \<and> addVertexIfNotExists (posting service) exampleClient escapedQuoteIngredient ''name''
       emptyGraph
     = (Resolved (Some (Single (V (storedIngredient 0)))),
        \<lparr>vertices = [storedIngredient 0], edges = [], nextId = 1\<rparr>)
   \<and> addVertexIfNotExists (logging (posting service)) exampleClient escapedQuoteIngredient
       ''name'' (\<lparr>vertices = [storedIngredient 0], edges = [], nextId = 1\<rparr>, [])
     = (Resolved (Some (Single (V (storedIngredient 1)))),
        (\<lparr>vertices = [storedIngredient 0, storedIngredient 1], edges = [], nextId = 2\<rparr>,
         [InGraph ''recipes'' (Traversal (FindVertices ''ingredient'' ''name'' escapedQuoteKey)),
          InGraph ''recipes'' (AddVertex ''ingredient'' [(''name'', PStr escapedQuoteKey)])]))
   \<and> repeatedly 2
        (addVertexIfNotExists (posting service) exampleClient escapedQuoteIngredient ''name'')
        emptyGraph
     = (True, \<lparr>vertices = [storedIngredient 0, storedIngredient 1], edges = [], nextId = 2\<rparr>)"
  by code_simp

subsection \<open>Edges against the reference graph service\<close>

lemma concat_map_if:
  "concat (map (\<lambda>x. if P x then f x else []) xs) = concat (map f (filter P xs))"
  by (induction xs) auto

lemma filter_vid_unique:
  "distinct (map vid vs) \<Longrightarrow> a \<in> set vs \<Longrightarrow> filter (\<lambda>v. vid v = vid a) vs = [a]"
proof (induction vs)
  case Nil
  then show ?case by simp
next
  case (Cons v vs)
  show ?case
  proof (cases "a = v")
    case True
    with Cons.prems have "vid a \<notin> vid ` set vs" by simp
    then have "filter (\<lambda>u. vid u = vid a) vs = []"
      unfolding filter_empty_conv by (metis imageI)
    with True show ?thesis by simp
  next
    case False
    with Cons show ?thesis by auto
  qed
qed

lemma vertex_of_id: "i \<in> vertexIds g \<Longrightarrow> \<exists>a\<in>set (vertices g). vid a = i"
  by (auto simp: vertexIds_def)

lemma run_FindEdgePath:
  assumes "wellFormed g" and "a \<in> set (vertices g)" and "b \<in> set (vertices g)"
  shows "run (FindEdgePath (vid a) (vid b)) g =
           Some (map (\<lambda>e. Path [V a, E e, V b]) (edgesBetween g (vid a) (vid b)))"
proof -
  from assms have a: "filter (\<lambda>v. vid v = vid a) (vertices g) = [a]"
    and b: "filter (\<lambda>v. vid v = vid b) (vertices g) = [b]"
    by (simp_all add: wellFormed_def filter_vid_unique)
  show ?thesis
    by (simp add: concat_map_if a b)
qed

lemma run_FindEdgePath_missing:
  assumes "ov \<notin> vertexIds g \<or> iv \<notin> vertexIds g"
  shows "run (FindEdgePath ov iv) g = Some []"
proof -
  from assms have "filter (\<lambda>v. vid v = ov) (vertices g) = []
     \<or> filter (\<lambda>v. vid v = iv) (vertices g) = []"
    by (auto simp: vertexIds_def filter_empty_conv)
  then show ?thesis
  proof
    assume "filter (\<lambda>v. vid v = ov) (vertices g) = []"
    then show ?thesis by (simp add: concat_map_if)
  next
    assume "filter (\<lambda>v. vid v = iv) (vertices g) = []"
    then show ?thesis by (simp add: concat_map_if)
  qed
qed

lemma createEdge_serve:
  assumes "ov \<in> vertexIds g" and "iv \<in> vertexIds g"
  shows "createEdge serve c l ov iv ps g =
     (Resolved (Some (Single (E (newEdge g \<lparr>label = l, outV = ov, inV = iv, properties = ps\<rparr>)))),
      withEdge g (newEdge g \<lparr>label = l, outV = ov, inV = iv, properties = ps\<rparr>))"
proof -
  let ?e = "newEdge g \<lparr>label = l, outV = ov, inV = iv, properties = ps\<rparr>"
  from assms
  have "serve (InGraph (graphIdText c) (AddEdge l ov iv (case ps of None \<Rightarrow> [] | Some kvs \<Rightarrow> kvs))) g
        = (Replied (okBody [Single (E ?e)]), withEdge g ?e)"
    by (cases ps) (simp_all add: vertexIds_def newEdge_def withEdge_def ok_def Let_def)
  then show ?thesis
    by (simp add: createEdge_def thenP_def resolve_def
        runGremlinQuery_replied [where b = "okBody [Single (E ?e)]" and s' = "withEdge g ?e"])
qed

lemma createEdge_serve_missing:
  assumes "ov \<notin> vertexIds g \<or> iv \<notin> vertexIds g"
  shows "createEdge serve c l ov iv ps g = (Rejected TransportError, g)"
proof -
  from assms
  have "exec (AddEdge l ov iv (case ps of None \<Rightarrow> [] | Some kvs \<Rightarrow> kvs)) g = (Failed, g)"
    by (auto simp: vertexIds_def)
  then show ?thesis
    by (simp add: createEdge_def thenP_def runGremlinQuery_serve_failed)
qed

lemma updateEdge_serve:
  "\<exists>b. updateEdge serve c (eid f) (incrementedProperties f) g = (Resolved b, withIncrement g f)"
proof -
  let ?es = "map (\<lambda>e. if eid e = eid f then setProperties (incrementedProperties f) e else e)
               (edges g)"
  let ?b = "okBody (map (\<lambda>e. Single (E e)) (filter (\<lambda>e. eid e = eid f) ?es))"
  have "serve (InGraph (graphIdText c) (SetEdgeProperties (eid f) (incrementedProperties f))) g
        = (Replied ?b, withIncrement g f)"
    by (simp add: withIncrement_def ok_def Let_def)
  then have "updateEdge serve c (eid f) (incrementedProperties f) g
             = (Resolved ?b, withIncrement g f)"
    by (simp add: updateEdge_def
        runGremlinQuery_replied [where b = ?b and s' = "withIncrement g f"])
  then show ?thesis by blast
qed

lemma edgesBetween_endpoints:
  assumes "wellFormed g" and "edgesBetween g ov iv = f # fs"
  shows "ov \<in> vertexIds g \<and> iv \<in> vertexIds g \<and> f \<in> set (edges g) \<and> eout f = ov \<and> ein f = iv"
proof -
  from assms(2) have "f \<in> set (edgesBetween g ov iv)" by simp
  then have f: "f \<in> set (edges g)" "eout f = ov" "ein f = iv"
    by (simp_all add: edgesBetween_def)
  with assms(1) show ?thesis
    by (auto simp: wellFormed_def list_all_iff vertexIds_def)
qed

lemma lookup_serve:
  assumes "wellFormed g" and "ov \<in> vertexIds g" and "iv \<in> vertexIds g"
  shows "\<exists>a b. runGremlinQuery serve c (Traversal (FindEdgePath ov iv)) g =
           (Resolved (okBody (map (\<lambda>e. Path [V a, E e, V b]) (edgesBetween g ov iv))), g)"
proof -
  from assms obtain a b where "a \<in> set (vertices g)" "vid a = ov" "b \<in> set (vertices g)" "vid b = iv"
    using vertex_of_id by blast
  with run_FindEdgePath [OF assms(1), of a b] show ?thesis
    using runGremlinQuery_serve_traversal by blast
qed

lemma addUpdateEdge_serve_create:
  assumes "wellFormed g" and "outV spec \<in> vertexIds g" and "inV spec \<in> vertexIds g"
    and "edgesBetween g (outV spec) (inV spec) = []"
  shows "addUpdateEdge serve c spec g =
           (Resolved (Created (Some (Single (E (newEdge g spec))))), withEdge g (newEdge g spec))"
proof -
  from lookup_serve [OF assms(1-3), of c] assms(4)
  have "runGremlinQuery serve c (Traversal (FindEdgePath (outV spec) (inV spec))) g
        = (Resolved (okBody []), g)" by auto
  then show ?thesis
    using createEdge_serve [OF assms(2,3), of c "label spec" "properties spec"]
    by (simp add: addUpdateEdge_def thenP_def resolve_def newEdge_def)
qed

lemma addUpdateEdge_serve_update:
  assumes "wellFormed g" and "edgesBetween g (outV spec) (inV spec) = f # fs"
  shows "\<exists>b. addUpdateEdge serve c spec g = (Resolved (Updated b), withIncrement g f)"
proof -
  note e = edgesBetween_endpoints [OF assms]
  from lookup_serve [OF assms(1), of "outV spec" "inV spec" c] e assms(2)
  obtain a b where
    "runGremlinQuery serve c (Traversal (FindEdgePath (outV spec) (inV spec))) g
        = (Resolved (okBody (Path [V a, E f, V b] # map (\<lambda>e. Path [V a, E e, V b]) fs)), g)"
    by auto
  moreover obtain r where "updateEdge serve c (eid f) (incrementedProperties f) g
      = (Resolved r, withIncrement g f)"
    using updateEdge_serve by blast
  ultimately show ?thesis
    by (simp add: addUpdateEdge_def thenP_def resolve_def)
qed

lemma addUpdateEdge_serve_missing:
  assumes "outV spec \<notin> vertexIds g \<or> inV spec \<notin> vertexIds g"
  shows "addUpdateEdge serve c spec g = (Rejected TransportError, g)"
proof -
  from run_FindEdgePath_missing [OF assms]
  have "runGremlinQuery serve c (Traversal (FindEdgePath (outV spec) (inV spec))) g
        = (Resolved (okBody []), g)"
    by (rule runGremlinQuery_serve_traversal)
  then show ?thesis
    using createEdge_serve_missing [OF assms, of c "label spec" "properties spec"]
    by (simp add: addUpdateEdge_def thenP_def)
qed

lemma addEdgeIfNotExists_serve_create:
  assumes "wellFormed g" and "outV spec \<in> vertexIds g" and "inV spec \<in> vertexIds g"
    and "edgesBetween g (outV spec) (inV spec) = []"
  shows "addEdgeIfNotExists serve c spec g =
           (Resolved (Some (Single (E (newEdge g spec)))), withEdge g (newEdge g spec))"
proof -
  from lookup_serve [OF assms(1-3), of c] assms(4)
  have "runGremlinQuery serve c (Traversal (FindEdgePath (outV spec) (inV spec))) g
        = (Resolved (okBody []), g)" by auto
  then show ?thesis
    using createEdge_serve [OF assms(2,3), of c "label spec" "properties spec"]
    by (simp add: addEdgeIfNotExists_def thenP_def newEdge_def)
qed

lemma addEdgeIfNotExists_serve_exists:
  assumes "wellFormed g" and "edgesBetween g (outV spec) (inV spec) = f # fs"
  shows "\<exists>a b. addEdgeIfNotExists serve c spec g = (Resolved (Some (Path [V a, E f, V b])), g)"
proof -
  note e = edgesBetween_endpoints [OF assms]
  from lookup_serve [OF assms(1), of "outV spec" "inV spec" c] e assms(2)
  obtain a b where
    "runGremlinQuery serve c (Traversal (FindEdgePath (outV spec) (inV spec))) g
        = (Resolved (okBody (Path [V a, E f, V b] # map (\<lambda>e. Path [V a, E e, V b]) fs)), g)"
    by auto
  then show ?thesis
    by (simp add: addEdgeIfNotExists_def thenP_def resolve_def)
qed

lemma addEdgeIfNotExists_serve_missing:
  assumes "outV spec \<notin> vertexIds g \<or> inV spec \<notin> vertexIds g"
  shows "addEdgeIfNotExists serve c spec g = (Rejected TransportError, g)"
proof -
  from run_FindEdgePath_missing [OF assms]
  have "runGremlinQuery serve c (Traversal (FindEdgePath (outV spec) (inV spec))) g
        = (Resolved (okBody []), g)"
    by (rule runGremlinQuery_serve_traversal)
  then show ?thesis
    using createEdge_serve_missing [OF assms, of c "label spec" "properties spec"]
    by (simp add: addEdgeIfNotExists_def thenP_def)
qed

text \<open>The same against the service that reads the text.\<close>

lemma lookup_posting:
  assumes "plain (graphIdText c)"
  shows "runGremlinQuery (posting service) c (Traversal (FindEdgePath ov iv))
         = runGremlinQuery serve c (Traversal (FindEdgePath ov iv))"
  using assms
  by (intro runGremlinQuery_posting) (simp_all add: plainStatement_def plainTraversal_def)

lemma createEdge_service:
  assumes "plain (graphIdText c)" and "plain l"
    and "plainProps (case ps of None \<Rightarrow> [] | Some kvs \<Rightarrow> kvs)"
  shows "createEdge (posting service) c l ov iv ps = createEdge serve c l ov iv ps"
proof -
  let ?ps = "case ps of None \<Rightarrow> [] | Some kvs \<Rightarrow> kvs"
  from assms(2) plainProps_readsAs [OF assms(3)]
  have "plainStatement (AddEdge l ov iv ?ps) (AddEdge l ov iv ?ps)"
    by (auto simp: plainStatement_def)
  from runGremlinQuery_posting [OF assms(1) this] show ?thesis
    by (simp add: createEdge_def)
qed

lemma updateEdge_service:
  assumes "plain (graphIdText c)" and "plainProps ps"
  shows "updateEdge (posting service) c i ps = updateEdge serve c i ps"
proof -
  from plainProps_readsAs [OF assms(2)]
  have "plainStatement (SetEdgeProperties i ps) (SetEdgeProperties i ps)"
    by (auto simp: plainStatement_def)
  from runGremlinQuery_posting [OF assms(1) this] show ?thesis
    by (simp add: updateEdge_def)
qed

lemma addEdgeIfNotExists_service:
  assumes "plain (graphIdText c)" and "plain (label spec)"
    and "plainProps (case properties spec of None \<Rightarrow> [] | Some kvs \<Rightarrow> kvs)"
  shows "addEdgeIfNotExists (posting service) c spec = addEdgeIfNotExists serve c spec"
  by (rule ext)
    (simp add: addEdgeIfNotExists_def lookup_posting [OF assms(1)] createEdge_service [OF assms]
       cong: if_cong)

lemma run_FindEdgePath_rows:
  assumes "run (FindEdgePath ov iv) g = Some rows" and "r \<in> set rows"
  shows "\<exists>a e b. r = Path [V a, E e, V b] \<and> e \<in> set (edgesBetween g ov iv)"
  using assms by auto

text \<open>
  \<^verbatim>\<open>addUpdateEdge\<close> writes back all the properties of the edge it found; the service reads
  them as they are when they are plain.
\<close>

lemma addUpdateEdge_service:
  assumes "plain (graphIdText c)" and "plain (label spec)"
    and "plainProps (case properties spec of None \<Rightarrow> [] | Some kvs \<Rightarrow> kvs)"
    and "\<And>f. f \<in> set (edgesBetween g (outV spec) (inV spec))
            \<Longrightarrow> plainProps (incrementedProperties f)"
  shows "addUpdateEdge (posting service) c spec g = addUpdateEdge serve c spec g"
proof -
  obtain rows where rows: "run (FindEdgePath (outV spec) (inV spec)) g = Some rows" by simp
  note q = runGremlinQuery_serve_traversal [OF rows, of c]
  show ?thesis
  proof (cases rows)
    case Nil
    with q show ?thesis
      by (simp add: addUpdateEdge_def thenP_def lookup_posting [OF assms(1)]
          createEdge_service [OF assms(1-3)])
  next
    case (Cons r rs)
    with run_FindEdgePath_rows [OF rows, of r] obtain a e b
      where r: "r = Path [V a, E e, V b]" and e: "e \<in> set (edgesBetween g (outV spec) (inV spec))"
      by auto
    note u = updateEdge_service [OF assms(1) assms(4) [OF e], of "eid e"]
    from q Cons r show ?thesis
      by (simp add: addUpdateEdge_def thenP_def lookup_posting [OF assms(1)] u)
  qed
qed

lemma plainProps_count [simp]: "plainProps [(''count'', PNum n)]"
  by (simp add: plainProps_def plain_def plainChar_def backslash_def dquote_def dollar_def)

lemma plainProps_Nil [simp]: "plainProps []"
  by (simp add: plainProps_def)

lemma plain_selects [simp]: "plain ''selects''" "plain ''has''"
  by (simp_all add: plain_def plainChar_def backslash_def dquote_def dollar_def)

lemma addUpdateEdge_service_create:
  assumes "wellFormed g" and "outV spec \<in> vertexIds g" and "inV spec \<in> vertexIds g"
    and "edgesBetween g (outV spec) (inV spec) = []"
    and "plain (graphIdText c)" and "plain (label spec)"
    and "plainProps (case properties spec of None \<Rightarrow> [] | Some kvs \<Rightarrow> kvs)"
  shows "addUpdateEdge (posting service) c spec g =
           (Resolved (Created (Some (Single (E (newEdge g spec))))), withEdge g (newEdge g spec))"
  using addUpdateEdge_service [OF assms(5-7), of g] assms(4)
    addUpdateEdge_serve_create [OF assms(1-4), of c]
  by simp

lemma addUpdateEdge_service_update:
  assumes "wellFormed g" and "edgesBetween g (outV spec) (inV spec) = f # fs"
    and "plain (graphIdText c)" and "plain (label spec)"
    and "plainProps (case properties spec of None \<Rightarrow> [] | Some kvs \<Rightarrow> kvs)"
    and "list_all (\<lambda>e. plainProps (incrementedProperties e)) (f # fs)"
  shows "\<exists>b. addUpdateEdge (posting service) c spec g = (Resolved (Updated b), withIncrement g f)"
proof -
  from assms(2,6)
  have "\<And>e. e \<in> set (edgesBetween g (outV spec) (inV spec))
          \<Longrightarrow> plainProps (incrementedProperties e)"
    by (auto simp: list_all_iff)
  from addUpdateEdge_service [OF assms(3-5) this] addUpdateEdge_serve_update [OF assms(1,2), of c]
  show ?thesis by simp
qed

lemma addEdgeIfNotExists_service_create:
  assumes "wellFormed g" and "outV spec \<in> vertexIds g" and "inV spec \<in> vertexIds g"
    and "edgesBetween g (outV spec) (inV spec) = []"
    and "plain (graphIdText c)" and "plain (label spec)"
    and "plainProps (case properties spec of None \<Rightarrow> [] | Some kvs \<Rightarrow> kvs)"
  shows "addEdgeIfNotExists (posting service) c spec g =
           (Resolved (Some (Single (E (newEdge g spec)))), withEdge g (newEdge g spec))"
  using addEdgeIfNotExists_serve_create [OF assms(1-4), of c]
  by (simp add: addEdgeIfNotExists_service [OF assms(5-7)])

lemma addEdgeIfNotExists_service_exists:
  assumes "wellFormed g" and "edgesBetween g (outV spec) (inV spec) = f # fs"
    and "plain (graphIdText c)" and "plain (label spec)"
    and "plainProps (case properties spec of None \<Rightarrow> [] | Some kvs \<Rightarrow> kvs)"
  shows "\<exists>a b. addEdgeIfNotExists (posting service) c spec g
                 = (Resolved (Some (Path [V a, E f, V b])), g)"
  using addEdgeIfNotExists_serve_exists [OF assms(1,2), of c]
  by (simp add: addEdgeIfNotExists_service [OF assms(3-5)])

subsection \<open>What the edge operations keep\<close>

lemma setProperties_fields [simp]:
  "eid (setProperties ps e) = eid e" "eout (setProperties ps e) = eout e"
  "ein (setProperties ps e) = ein e" "elabel (setProperties ps e) = elabel e"
  by (simp_all add: setProperties_def Let_def)

lemma withEdge_fields [simp]:
  "vertices (withEdge g e) = vertices g" "edges (withEdge g e) = edges g @ [e]"
  "nextId (withEdge g e) = Suc (nextId g)" "vertexIds (withEdge g e) = vertexIds g"
  by (simp_all add: withEdge_def vertexIds_def)

lemma withIncrement_fields [simp]:
  "vertices (withIncrement g f) = vertices g" "nextId (withIncrement g f) = nextId g"
  "vertexIds (withIncrement g f) = vertexIds g"
  "map eid (edges (withIncrement g f)) = map eid (edges g)"
  "map elabel (edges (withIncrement g f)) = map elabel (edges g)"
  "map (\<lambda>e. (eout e, ein e)) (edges (withIncrement g f)) = map (\<lambda>e. (eout e, ein e)) (edges g)"
  "length (edges (withIncrement g f)) = length (edges g)"
  by (simp_all add: withIncrement_def vertexIds_def comp_def if_distrib [of eid]
      if_distrib [of elabel] if_distrib [of eout] if_distrib [of ein] cong: if_cong)

lemma withVertex_fields [simp]:
  "vertices (withVertex g v) = vertices g @ [v]" "edges (withVertex g v) = edges g"
  "nextId (withVertex g v) = Suc (nextId g)"
  "vertexIds (withVertex g v) = insert (vid v) (vertexIds g)"
  by (simp_all add: withVertex_def vertexIds_def)

lemma wellFormed_withEdge:
  assumes "wellFormed g" and "eid e = nextId g" and "eout e \<in> vertexIds g" and "ein e \<in> vertexIds g"
  shows "wellFormed (withEdge g e)"
  using assms
  by (auto simp: wellFormed_def list_all_iff vertexIds_def less_Suc_eq)

lemma wellFormed_withIncrement:
  assumes "wellFormed g"
  shows "wellFormed (withIncrement g f)"
proof -
  have "list_all (\<lambda>e. eid e < nextId g \<and> eout e \<in> set (map vid (vertices g))
                       \<and> ein e \<in> set (map vid (vertices g))) (edges (withIncrement g f))"
    using assms by (auto simp: wellFormed_def list_all_iff withIncrement_def)
  with assms show ?thesis
    unfolding wellFormed_def by (simp del: set_map)
qed

lemma wellFormed_withVertex:
  assumes "wellFormed g" and "vid v = nextId g"
  shows "wellFormed (withVertex g v)"
  using assms
  by (auto simp: wellFormed_def list_all_iff less_Suc_eq)

lemma edgesBetween_withEdge:
  "edgesBetween (withEdge g e) ov iv =
     edgesBetween g ov iv @ (if eout e = ov \<and> ein e = iv then [e] else [])"
  by (simp add: edgesBetween_def)

lemma edgesBetween_withIncrement:
  "edgesBetween (withIncrement g f) ov iv =
     map (\<lambda>e. if eid e = eid f then setProperties (incrementedProperties f) e else e)
       (edgesBetween g ov iv)"
  by (simp add: edgesBetween_def withIncrement_def filter_map comp_def if_distrib [of eout]
      if_distrib [of ein] cong: if_cong)

lemma edgesBetween_withVertex [simp]: "edgesBetween (withVertex g v) ov iv = edgesBetween g ov iv"
  by (simp add: edgesBetween_def)

lemma onePerPair_withEdge:
  assumes "onePerPair g" and "edgesBetween g (eout e) (ein e) = []"
  shows "onePerPair (withEdge g e)"
  using assms
  by (auto simp: onePerPair_def edgesBetween_def filter_empty_conv)

lemma onePerPair_withIncrement: "onePerPair g \<Longrightarrow> onePerPair (withIncrement g f)"
  by (simp add: onePerPair_def)

lemma newEdge_fields [simp]:
  "eid (newEdge g spec) = nextId g" "eout (newEdge g spec) = outV spec"
  "ein (newEdge g spec) = inV spec" "elabel (newEdge g spec) = label spec"
  by (simp_all add: newEdge_def)

subsection \<open>Counting on a weighted edge\<close>

lemma map_of_setProperty: "map_of (setProperty k v ps) k = Some v"
  by (induction ps) auto

lemma roundToDouble_exact: "\<bar>x\<bar> \<le> 2 ^ 53 \<Longrightarrow> roundToDouble x = x"
  by (simp add: roundToDouble_def)

lemma roundToDouble_succ: "\<bar>n\<bar> < 2 ^ 53 \<Longrightarrow> roundToDouble (n + 1) = n + 1"
  by (intro roundToDouble_exact) simp

lemma roundToDouble_one [simp]: "roundToDouble 1 = 1"
  by (simp add: roundToDouble_def)

lemma incrementedProperties_count:
  "(edgeCount found = Some n \<and> \<bar>n\<bar> < 2 ^ 53 \<longrightarrow>
      map_of (incrementedProperties found) ''count'' = Some (PNum (n + 1)))
   \<and> (countUnset found \<longrightarrow> map_of (incrementedProperties found) ''count'' = Some (PNum 1))"
  by (auto simp: incrementedProperties_def edgeCount_def countUnset_def Let_def map_of_setProperty
      roundToDouble_succ split: option.splits pvalue.splits)

lemma incrementedProperties_countedEdge:
  "incrementedProperties (countedEdge i l ov iv n) = [(''count'', PNum (roundToDouble (n + 1)))]"
  by (simp add: incrementedProperties_def countedEdge_def)

lemma setProperties_countedEdge:
  "setProperties [(''count'', PNum m)] (countedEdge i l ov iv n) = countedEdge i l ov iv m"
  by (simp add: setProperties_def countedEdge_def)

lemma newEdge_weightedEdge:
  "newEdge g (weightedEdge l ov iv) = countedEdge (nextId g) l ov iv 1"
  by (simp add: newEdge_def weightedEdge_def countedEdge_def)

lemma withIncrement_counted:
  assumes "wellFormed g"
  shows "withIncrement (withEdge g (countedEdge (nextId g) l ov iv n))
           (countedEdge (nextId g) l ov iv n)
         = withEdge g (countedEdge (nextId g) l ov iv (roundToDouble (n + 1)))"
proof -
  have i: "eid (countedEdge (nextId g) l ov iv n) = nextId g" by (simp add: countedEdge_def)
  from assms have "\<forall>e\<in>set (edges g). eid e \<noteq> nextId g"
    by (auto simp: wellFormed_def list_all_iff)
  then have "map (\<lambda>e. if eid e = nextId g then setProperties ps e else e) (edges g) = edges g"
    for ps
    by (intro map_idI) simp
  then show ?thesis
    by (simp add: withIncrement_def withEdge_def i incrementedProperties_countedEdge
        setProperties_countedEdge)
qed

lemma addUpdateEdge_weighted_first:
  assumes "wellFormed g" and "ov \<in> vertexIds g" and "iv \<in> vertexIds g"
    and "edgesBetween g ov iv = []" and "plain (graphIdText c)" and "plain l"
  shows "\<exists>r. addUpdateEdge (posting service) c (weightedEdge l ov iv) g =
           (Resolved r, withEdge g (countedEdge (nextId g) l ov iv 1))"
proof -
  let ?w = "weightedEdge l ov iv"
  have s: "outV ?w = ov" "inV ?w = iv" "label ?w = l"
    "plainProps (case properties ?w of None \<Rightarrow> [] | Some kvs \<Rightarrow> kvs)"
    by (simp_all add: weightedEdge_def)
  from addUpdateEdge_service_create [of g ?w c] assms s show ?thesis
    by (simp add: newEdge_weightedEdge)
qed

lemma addUpdateEdge_weighted_next:
  assumes "wellFormed g" and "ov \<in> vertexIds g" and "iv \<in> vertexIds g"
    and "edgesBetween g ov iv = []" and "plain (graphIdText c)" and "plain l"
  shows "\<exists>r. addUpdateEdge (posting service) c (weightedEdge l ov iv)
                (withEdge g (countedEdge (nextId g) l ov iv n)) =
           (Resolved r, withEdge g (countedEdge (nextId g) l ov iv (roundToDouble (n + 1))))"
proof -
  let ?e = "countedEdge (nextId g) l ov iv n"
  let ?w = "weightedEdge l ov iv"
  have f: "eid ?e = nextId g" "eout ?e = ov" "ein ?e = iv" by (simp_all add: countedEdge_def)
  have w: "wellFormed (withEdge g ?e)"
    using assms f by (intro wellFormed_withEdge) simp_all
  have b: "edgesBetween (withEdge g ?e) (outV ?w) (inV ?w) = ?e # []"
    using assms(4) f by (simp add: edgesBetween_withEdge weightedEdge_def)
  have s: "plain (label ?w)"
    "plainProps (case properties ?w of None \<Rightarrow> [] | Some kvs \<Rightarrow> kvs)"
    using assms(6) by (simp_all add: weightedEdge_def)
  have p: "list_all (\<lambda>e. plainProps (incrementedProperties e)) [?e]"
    by (simp add: incrementedProperties_countedEdge)
  from addUpdateEdge_service_update [OF w b assms(5) s p]
    withIncrement_counted [OF assms(1), of l ov iv n]
  show ?thesis by auto
qed

lemma repeatedly_weighted_from:
  assumes "wellFormed g" and "ov \<in> vertexIds g" and "iv \<in> vertexIds g"
    and "edgesBetween g ov iv = []" and "plain (graphIdText c)" and "plain l"
  shows "0 \<le> k \<Longrightarrow> k + int n \<le> 2 ^ 53 \<Longrightarrow>
         repeatedly n (addUpdateEdge (posting service) c (weightedEdge l ov iv))
           (withEdge g (countedEdge (nextId g) l ov iv k))
         = (True, withEdge g (countedEdge (nextId g) l ov iv (k + int n)))"
proof (induction n arbitrary: k)
  case 0
  then show ?case by simp
next
  case (Suc n)
  from Suc.prems have k: "roundToDouble (k + 1) = k + 1" by (intro roundToDouble_succ) simp
  from addUpdateEdge_weighted_next [OF assms, of k]
  obtain r where "addUpdateEdge (posting service) c (weightedEdge l ov iv)
                (withEdge g (countedEdge (nextId g) l ov iv k)) =
           (Resolved r, withEdge g (countedEdge (nextId g) l ov iv (k + 1)))"
    unfolding k by blast
  with Suc.IH [of "k + 1"] Suc.prems show ?case by (simp add: add.assoc)
qed

lemma repeatedly_weighted:
  assumes "wellFormed g" and "ov \<in> vertexIds g" and "iv \<in> vertexIds g"
    and "edgesBetween g ov iv = []" and "plain (graphIdText c)" and "plain l"
    and "0 < n" and "n \<le> 2 ^ 53"
  shows "repeatedly n (addUpdateEdge (posting service) c (weightedEdge l ov iv)) g
         = (True, withEdge g (countedEdge (nextId g) l ov iv (int n)))"
proof -
  from assms(7) obtain m where n: "n = Suc m" by (cases n) auto
  from assms(8) have "int n \<le> 2 ^ 53" by (simp add: of_nat_le_iff [symmetric] del: of_nat_le_iff)
  with n have b: "1 + int m \<le> 2 ^ 53" by simp
  from addUpdateEdge_weighted_first [OF assms(1-6)]
  obtain r where "addUpdateEdge (posting service) c (weightedEdge l ov iv) g =
           (Resolved r, withEdge g (countedEdge (nextId g) l ov iv 1))" by blast
  with repeatedly_weighted_from [OF assms(1-6), of 1 m] b show ?thesis
    by (simp add: n add.commute)
qed

text \<open>Calls one after the other: first some, then some more.\<close>

lemma repeatedly_add:
  "repeatedly (m + n) op s =
     (case repeatedly m op s of (True, s') \<Rightarrow> repeatedly n op s' | (False, s') \<Rightarrow> (False, s'))"
proof (induction m arbitrary: s)
  case 0
  then show ?case by simp
next
  case (Suc m)
  then show ?case
    by (cases "op s") (auto split: promise.splits)
qed

lemma createEdge_logging:
  "createEdge (logging rp) c l ov iv ps (s, lg) =
     (case createEdge rp c l ov iv ps s of
        (r, s') \<Rightarrow>
          (r, (s', lg @ [InGraph (graphIdText c)
                          (AddEdge l ov iv (case ps of None \<Rightarrow> [] | Some kvs \<Rightarrow> kvs))])))"
  by (simp add: createEdge_def thenP_def runGremlinQuery_logging resolve_def
      split: prod.splits promise.splits)

lemma updateEdge_logging:
  "updateEdge (logging rp) c i ps (s, lg) =
     (case updateEdge rp c i ps s of
        (r, s') \<Rightarrow> (r, (s', lg @ [InGraph (graphIdText c) (SetEdgeProperties i ps)])))"
  by (simp add: updateEdge_def runGremlinQuery_logging)

lemma addUpdateEdge_scripts_create:
  assumes "rp (InGraph (graphIdText c) (Traversal (FindEdgePath (outV spec) (inV spec)))) s
             = (Replied b, s')"
    and "status200 b" and "noData b"
  shows "snd (snd (addUpdateEdge (logging rp) c spec (s, []))) =
           [InGraph (graphIdText c) (Traversal (FindEdgePath (outV spec) (inV spec))),
            InGraph (graphIdText c)
              (AddEdge (label spec) (outV spec) (inV spec)
                 (case properties spec of None \<Rightarrow> [] | Some kvs \<Rightarrow> kvs))]"
  using assms
  by (simp add: addUpdateEdge_def thenP_def runGremlinQuery_logging runGremlinQuery_replied
      hasRows_noData createEdge_logging resolve_def split: prod.splits promise.splits)

lemma addUpdateEdge_scripts_update:
  assumes "rp (InGraph (graphIdText c) (Traversal (FindEdgePath (outV spec) (inV spec)))) s
             = (Replied b, s')"
    and "status200 b" and "firstRow b = Some (Path (x # E found # rest))"
  shows "snd (snd (addUpdateEdge (logging rp) c spec (s, []))) =
           [InGraph (graphIdText c) (Traversal (FindEdgePath (outV spec) (inV spec))),
            InGraph (graphIdText c)
              (SetEdgeProperties (eid found) (incrementedProperties found))]"
proof -
  from assms(3) have "hasRows b"
    by (simp add: firstRow_def hasRows_def split: list.splits)
  with assms show ?thesis
    by (simp add: addUpdateEdge_def thenP_def runGremlinQuery_logging runGremlinQuery_replied
        updateEdge_logging resolve_def split: prod.splits promise.splits)
qed

text \<open>
  Claim C7, as the code has it. When the lookup has no rows, \<^verbatim>\<open>addUpdateEdge\<close> goes on
  to create the edge with the properties it was passed, which for a weighted edge is a
  count of 1. When the first row holds a found edge, it goes on to write back that edge's
  properties with the count replaced by the count plus one, the count of an edge without
  one being taken as 0; the sum is that of two doubles, which is the count plus one as
  long as the count is below \<open>2 ^ 53\<close> in magnitude. Against the graph service, for a
  graph name and a label that stand for themselves in the text of a script: from a graph
  with both vertices and no edge from the one to the other, recording the weighted edge
  \<open>n\<close> times, each call after the one before has settled, resolves every time and
  leaves one edge with the count \<open>n\<close>, for \<open>n\<close> up to \<open>2 ^ 53\<close>.
\<close>

theorem addUpdateEdge_counts:
  "(rp (InGraph (graphIdText c) (Traversal (FindEdgePath ov iv))) s = (Replied b, s')
      \<and> status200 b \<and> noData b
    \<longrightarrow> snd (snd (addUpdateEdge (logging rp) c (weightedEdge l ov iv) (s, []))) =
          [InGraph (graphIdText c) (Traversal (FindEdgePath ov iv)),
           InGraph (graphIdText c) (AddEdge l ov iv [(''count'', PNum 1)])])
   \<and> (rp (InGraph (graphIdText c) (Traversal (FindEdgePath ov iv))) s = (Replied b, s')
      \<and> status200 b \<and> firstRow b = Some (Path (x # E found # rest))
    \<longrightarrow> snd (snd (addUpdateEdge (logging rp) c (weightedEdge l ov iv) (s, []))) =
          [InGraph (graphIdText c) (Traversal (FindEdgePath ov iv)),
           InGraph (graphIdText c)
             (SetEdgeProperties (eid found) (incrementedProperties found))])
   \<and> (edgeCount found = Some m \<and> \<bar>m\<bar> < 2 ^ 53 \<longrightarrow>
        map_of (incrementedProperties found) ''count'' = Some (PNum (m + 1)))
   \<and> (countUnset found \<longrightarrow> map_of (incrementedProperties found) ''count'' = Some (PNum 1))
   \<and> (wellFormed g \<and> ov \<in> vertexIds g \<and> iv \<in> vertexIds g \<and> edgesBetween g ov iv = []
      \<and> plain (graphIdText c) \<and> plain l \<and> 0 < n \<and> n \<le> 2 ^ 53
    \<longrightarrow> repeatedly n (addUpdateEdge (posting service) c (weightedEdge l ov iv)) g
          = (True, withEdge g (countedEdge (nextId g) l ov iv (int n))))"
proof (intro conjI impI)
  assume "rp (InGraph (graphIdText c) (Traversal (FindEdgePath ov iv))) s = (Replied b, s')
      \<and> status200 b \<and> noData b"
  then show "snd (snd (addUpdateEdge (logging rp) c (weightedEdge l ov iv) (s, []))) =
          [InGraph (graphIdText c) (Traversal (FindEdgePath ov iv)),
           InGraph (graphIdText c) (AddEdge l ov iv [(''count'', PNum 1)])]"
    using addUpdateEdge_scripts_create [of rp c "weightedEdge l ov iv" s b s']
    by (simp add: weightedEdge_def)
next
  assume "rp (InGraph (graphIdText c) (Traversal (FindEdgePath ov iv))) s = (Replied b, s')
      \<and> status200 b \<and> firstRow b = Some (Path (x # E found # rest))"
  then show "snd (snd (addUpdateEdge (logging rp) c (weightedEdge l ov iv) (s, []))) =
          [InGraph (graphIdText c) (Traversal (FindEdgePath ov iv)),
           InGraph (graphIdText c)
             (SetEdgeProperties (eid found) (incrementedProperties found))]"
    using addUpdateEdge_scripts_update [of rp c "weightedEdge l ov iv" s b s' x found rest]
    by (simp add: weightedEdge_def)
next
  assume "edgeCount found = Some m \<and> \<bar>m\<bar> < 2 ^ 53"
  then show "map_of (incrementedProperties found) ''count'' = Some (PNum (m + 1))"
    using incrementedProperties_count [of found m] by simp
next
  assume "countUnset found"
  then show "map_of (incrementedProperties found) ''count'' = Some (PNum 1)"
    using incrementedProperties_count [of found m] by simp
next
  assume "wellFormed g \<and> ov \<in> vertexIds g \<and> iv \<in> vertexIds g \<and> edgesBetween g ov iv = []
      \<and> plain (graphIdText c) \<and> plain l \<and> 0 < n \<and> n \<le> 2 ^ 53"
  then show "repeatedly n (addUpdateEdge (posting service) c (weightedEdge l ov iv)) g
          = (True, withEdge g (countedEdge (nextId g) l ov iv (int n)))"
    by (intro repeatedly_weighted) simp_all
qed

lemma exampleGraph_facts:
  "wellFormed exampleGraph" "vertexIds exampleGraph = {0, 1}" "edges exampleGraph = []"
  "nextId exampleGraph = 2" "vertices exampleGraph = [exampleUser, exampleIngredient]"
  by (auto simp: wellFormed_def exampleGraph_def exampleUser_def exampleIngredient_def
      vertexIds_def)

theorem addUpdateEdge_counts_witness:
  "snd (snd (addUpdateEdge (logging (always (ok []))) exampleClient
               (weightedEdge ''selects'' 0 1) ((), [])))
     = [InGraph ''recipes'' (Traversal (FindEdgePath 0 1)),
        InGraph ''recipes'' (AddEdge ''selects'' 0 1 [(''count'', PNum 1)])]
   \<and> snd (snd (addUpdateEdge
                 (logging (always (ok [Path [V exampleUser, E (plainEdge 2 ''has'' 0 1),
                                             V exampleIngredient]])))
                 exampleClient (weightedEdge ''selects'' 0 1) ((), [])))
     = [InGraph ''recipes'' (Traversal (FindEdgePath 0 1)),
        InGraph ''recipes'' (SetEdgeProperties 2 [(''count'', PNum 1)])]
   \<and> map_of (incrementedProperties (countedEdge 2 ''selects'' 0 1 4)) ''count'' = Some (PNum 5)
   \<and> countUnset (plainEdge 2 ''has'' 0 1)
   \<and> map_of (incrementedProperties (plainEdge 2 ''has'' 0 1)) ''count'' = Some (PNum 1)
   \<and> wellFormed exampleGraph \<and> 0 \<in> vertexIds exampleGraph \<and> 1 \<in> vertexIds exampleGraph
   \<and> edgesBetween exampleGraph 0 1 = []
   \<and> plain (graphIdText exampleClient) \<and> plain ''selects''
   \<and> repeatedly 3 (addUpdateEdge (posting service) exampleClient (weightedEdge ''selects'' 0 1))
        exampleGraph
       = (True, \<lparr>vertices = [exampleUser, exampleIngredient],
                 edges = [\<lparr>eid = 2, elabel = ''selects'', eout = 0, ein = 1,
                           eprops = Some [(''count'', PNum 3)]\<rparr>],
                 nextId = 3\<rparr>)"
proof -
  let ?f = "plainEdge 2 ''has'' 0 1"
  let ?p = "Path [V exampleUser, E ?f, V exampleIngredient]"
  have a: "always (ok rows) x () = (Replied (okBody rows), ())" for rows x
    by (simp add: always_def ok_def)
  have gi: "graphIdText exampleClient = ''recipes''"
    by (simp add: graphIdText_def exampleClient_def)
  have h1: "always (ok []) (InGraph (graphIdText exampleClient) (Traversal (FindEdgePath 0 1))) ()
              = (Replied (okBody []), ())
            \<and> status200 (okBody []) \<and> noData (okBody [])"
    by (simp add: a noData_rowsOf)
  have h2: "always (ok [?p]) (InGraph (graphIdText exampleClient) (Traversal (FindEdgePath 0 1))) ()
              = (Replied (okBody [?p]), ())
            \<and> status200 (okBody [?p])
            \<and> firstRow (okBody [?p]) = Some (Path (V exampleUser # E ?f # [V exampleIngredient]))"
    by (simp add: a)
  have h3: "edgeCount (countedEdge 2 ''selects'' 0 1 4) = Some 4 \<and> \<bar>4 :: int\<bar> < 2 ^ 53"
    by (simp add: edgeCount_def countedEdge_def)
  have h4: "countUnset ?f" by (simp add: countUnset_def plainEdge_def)
  have h5: "wellFormed exampleGraph \<and> 0 \<in> vertexIds exampleGraph \<and> 1 \<in> vertexIds exampleGraph
      \<and> edgesBetween exampleGraph 0 1 = []
      \<and> plain (graphIdText exampleClient) \<and> plain ''selects'' \<and> 0 < (3::nat) \<and> (3::nat) \<le> 2 ^ 53"
    by (simp add: exampleGraph_facts edgesBetween_def)
  note t1 = addUpdateEdge_counts
    [where rp = "always (ok [])" and c = exampleClient and ov = 0 and iv = 1 and s = "()"
       and b = "okBody []" and s' = "()" and l = "''selects''",
     THEN conjunct1, rule_format, OF h1]
  note t2 = addUpdateEdge_counts
    [where rp = "always (ok [?p])" and c = exampleClient and ov = 0 and iv = 1 and s = "()"
       and b = "okBody [?p]" and s' = "()" and l = "''selects''" and x = "V exampleUser"
       and found = ?f and rest = "[V exampleIngredient]",
     THEN conjunct2, THEN conjunct1, rule_format, OF h2]
  note t3 = addUpdateEdge_counts
    [where found = "countedEdge 2 ''selects'' 0 1 4" and m = 4,
     THEN conjunct2, THEN conjunct2, THEN conjunct1, rule_format, OF h3]
  note t4 = addUpdateEdge_counts
    [where found = ?f,
     THEN conjunct2, THEN conjunct2, THEN conjunct2, THEN conjunct1, rule_format, OF h4]
  note t5 = addUpdateEdge_counts
    [where g = exampleGraph and ov = 0 and iv = 1 and n = 3 and c = exampleClient
       and l = "''selects''",
     THEN conjunct2, THEN conjunct2, THEN conjunct2, THEN conjunct2, rule_format, OF h5]
  have i: "incrementedProperties ?f = [(''count'', PNum 1)]" "eid ?f = 2"
    by (simp_all add: incrementedProperties_def plainEdge_def)
  have e: "withEdge exampleGraph (countedEdge (nextId exampleGraph) ''selects'' 0 1 (int 3))
           = \<lparr>vertices = [exampleUser, exampleIngredient],
                 edges = [\<lparr>eid = 2, elabel = ''selects'', eout = 0, ein = 1,
                           eprops = Some [(''count'', PNum 3)]\<rparr>],
                 nextId = 3\<rparr>"
    by (simp add: withEdge_def countedEdge_def exampleGraph_def)
  from t1 t2 t3 t4 t5 h4 h5 show ?thesis
    unfolding gi i e by simp
qed

text \<open>
  The claim as it is stated fails where the doubles end: on an edge with the count
  \<open>2 ^ 53\<close> the count that is written back is \<open>2 ^ 53\<close> again, so that one more
  recording leaves the graph as it was, and \<open>2 ^ 53 + 1\<close> recordings leave the count
  \<open>2 ^ 53\<close>.
\<close>

theorem addUpdateEdge_counts_counterexample:
  "edgeCount (countedEdge 2 ''selects'' 0 1 9007199254740992) = Some 9007199254740992
   \<and> map_of (incrementedProperties (countedEdge 2 ''selects'' 0 1 9007199254740992)) ''count''
       = Some (PNum 9007199254740992)
   \<and> map_of (incrementedProperties (countedEdge 2 ''selects'' 0 1 9007199254740992)) ''count''
       \<noteq> Some (PNum (9007199254740992 + 1))
   \<and> snd (addUpdateEdge (posting service) exampleClient (weightedEdge ''selects'' 0 1)
            saturatedGraph)
       = saturatedGraph
   \<and> snd (snd (addUpdateEdge (logging (posting service)) exampleClient
                 (weightedEdge ''selects'' 0 1) (saturatedGraph, [])))
       = [InGraph ''recipes'' (Traversal (FindEdgePath 0 1)),
          InGraph ''recipes'' (SetEdgeProperties 2 [(''count'', PNum 9007199254740992)])]
   \<and> repeatedly 9007199254740993
        (addUpdateEdge (posting service) exampleClient (weightedEdge ''selects'' 0 1)) exampleGraph
       = (True, saturatedGraph)"
proof -
  let ?op = "addUpdateEdge (posting service) exampleClient (weightedEdge ''selects'' 0 1)"
  have r: "roundToDouble (9007199254740992 + 1) = 9007199254740992" by code_simp
  have 1: "edgeCount (countedEdge 2 ''selects'' 0 1 9007199254740992) = Some 9007199254740992"
    by (simp add: edgeCount_def countedEdge_def)
  have 2: "map_of (incrementedProperties (countedEdge 2 ''selects'' 0 1 9007199254740992))
             ''count'' = Some (PNum 9007199254740992)"
    using r by (simp add: incrementedProperties_countedEdge)
  have s: "saturatedGraph
           = withEdge exampleGraph
               (countedEdge (nextId exampleGraph) ''selects'' 0 1 9007199254740992)"
    by (simp add: saturatedGraph_def withEdge_def exampleGraph_def)
  have h: "wellFormed exampleGraph" "0 \<in> vertexIds exampleGraph" "1 \<in> vertexIds exampleGraph"
    "edgesBetween exampleGraph 0 1 = []" "plain (graphIdText exampleClient)" "plain ''selects''"
    by (simp_all add: exampleGraph_facts edgesBetween_def)
  let ?e = "countedEdge 2 ''selects'' 0 1 9007199254740992"
  let ?b = "okBody [Path [V exampleUser, E ?e, V exampleIngredient]]"
  have gi: "graphIdText exampleClient = ''recipes''"
    by (simp add: graphIdText_def exampleClient_def)
  have "run (FindEdgePath 0 1) saturatedGraph
        = Some [Path [V exampleUser, E ?e, V exampleIngredient]]"
    by (simp add: saturatedGraph_def edgesBetween_def exampleUser_def exampleIngredient_def
        countedEdge_def)
  then have q: "posting service (InGraph (graphIdText exampleClient)
                  (Traversal (FindEdgePath (outV (weightedEdge ''selects'' 0 1))
                     (inV (weightedEdge ''selects'' 0 1))))) saturatedGraph
                = (Replied ?b, saturatedGraph)"
    by (simp add: posting_service [OF h(5), where st' = "Traversal (FindEdgePath 0 1)"]
        plainStatement_def plainTraversal_def weightedEdge_def ok_def)
  have f: "firstRow ?b = Some (Path (V exampleUser # E ?e # [V exampleIngredient]))" by simp
  have st: "status200 ?b" by simp
  have ei: "eid (countedEdge i l' a b' k) = i" for i l' a b' k by (simp add: countedEdge_def)
  from addUpdateEdge_scripts_update
    [where rp = "posting service" and c = exampleClient and spec = "weightedEdge ''selects'' 0 1"
       and s = saturatedGraph and b = ?b and s' = saturatedGraph and x = "V exampleUser"
       and found = ?e and rest = "[V exampleIngredient]", OF q st f]
  have 3: "snd (snd (addUpdateEdge (logging (posting service)) exampleClient
                 (weightedEdge ''selects'' 0 1) (saturatedGraph, [])))
       = [InGraph ''recipes'' (Traversal (FindEdgePath 0 1)),
          InGraph ''recipes'' (SetEdgeProperties 2 [(''count'', PNum 9007199254740992)])]"
    using r by (simp add: gi weightedEdge_def incrementedProperties_countedEdge ei)
  from addUpdateEdge_weighted_next [OF h, of 9007199254740992]
  obtain x where n: "?op saturatedGraph = (Resolved x, saturatedGraph)"
    unfolding s [symmetric] r by blast
  have b: "0 < (9007199254740992::nat)" "(9007199254740992::nat) \<le> 2 ^ 53" by simp_all
  from repeatedly_weighted [OF h b]
  have "repeatedly 9007199254740992 ?op exampleGraph = (True, saturatedGraph)"
    unfolding s by simp
  with repeatedly_add [of 9007199254740992 1 ?op exampleGraph] n
  have 4: "repeatedly 9007199254740993 ?op exampleGraph = (True, saturatedGraph)"
    by simp
  from 1 2 3 4 n show ?thesis by simp
qed

subsection \<open>The lookup of the edge helpers\<close>

lemma addUpdateEdge_first_script:
  "\<exists>rest. snd (snd (addUpdateEdge (logging rp) c spec (s, []))) =
     InGraph (graphIdText c) (Traversal (FindEdgePath (outV spec) (inV spec))) # rest"
proof (cases "runGremlinQuery rp c (Traversal (FindEdgePath (outV spec) (inV spec))) s")
  case (Pair r s')
  show ?thesis
  proof (cases r)
    case (Rejected e)
    with Pair show ?thesis
      by (simp add: addUpdateEdge_def thenP_def runGremlinQuery_logging)
  next
    case (Resolved b)
    show ?thesis
    proof (cases "hasRows b")
      case False
      with Pair Resolved show ?thesis
        by (simp add: addUpdateEdge_def thenP_def runGremlinQuery_logging createEdge_logging
            resolve_def split: prod.splits promise.splits)
    next
      case True
      with Pair Resolved show ?thesis
        by (simp add: addUpdateEdge_def thenP_def runGremlinQuery_logging updateEdge_logging
            resolve_def reject_def
            split: prod.splits promise.splits option.splits row.splits list.splits
              element.splits)
    qed
  qed
qed

lemma addEdgeIfNotExists_first_script:
  "\<exists>rest. snd (snd (addEdgeIfNotExists (logging rp) c spec (s, []))) =
     InGraph (graphIdText c) (Traversal (FindEdgePath (outV spec) (inV spec))) # rest"
  by (cases "runGremlinQuery rp c (Traversal (FindEdgePath (outV spec) (inV spec))) s")
    (simp add: addEdgeIfNotExists_def thenP_def runGremlinQuery_logging createEdge_logging
      resolve_def split: prod.splits promise.splits)

lemma edgesBetween_incremented:
  assumes "wellFormed g" and "edgesBetween g ov iv = f # fs"
  shows "edgesBetween (withIncrement g f) ov iv = setProperties (incrementedProperties f) f # fs"
proof -
  from assms(1) have "distinct (map eid (edgesBetween g ov iv))"
    by (simp add: wellFormed_def edgesBetween_def distinct_map_filter)
  with assms(2) have "eid f \<notin> eid ` set fs" by simp
  then have "\<forall>e\<in>set fs. eid e \<noteq> eid f" by (metis imageI)
  then have "map (\<lambda>e. if eid e = eid f then setProperties (incrementedProperties f) e else e) fs
             = fs"
    by (intro map_idI) simp
  with assms(2) show ?thesis by (simp add: edgesBetween_withIncrement)
qed

lemma helperStep_keeps:
  assumes "wellFormed g" and "onePerPair g"
  shows "wellFormed (helperStep c call g) \<and> onePerPair (helperStep c call g)"
proof -
  have create: "wellFormed (withEdge g (newEdge g spec)) \<and> onePerPair (withEdge g (newEdge g spec))"
    if "outV spec \<in> vertexIds g" "inV spec \<in> vertexIds g"
      "edgesBetween g (outV spec) (inV spec) = []" for spec
    using that assms by (simp add: wellFormed_withEdge onePerPair_withEdge)
  show ?thesis
  proof (cases call)
    case (AddUpdate spec)
    show ?thesis
    proof (cases "outV spec \<in> vertexIds g \<and> inV spec \<in> vertexIds g")
      case False
      then have "addUpdateEdge serve c spec g = (Rejected TransportError, g)"
        by (intro addUpdateEdge_serve_missing) blast
      with assms AddUpdate show ?thesis by simp
    next
      case True
      show ?thesis
      proof (cases "edgesBetween g (outV spec) (inV spec)")
        case Nil
        with True assms(1) have "snd (addUpdateEdge serve c spec g) = withEdge g (newEdge g spec)"
          by (simp add: addUpdateEdge_serve_create)
        with create [of spec] True Nil AddUpdate show ?thesis by simp
      next
        case (Cons f fs)
        from addUpdateEdge_serve_update [OF assms(1) Cons, of c]
        have "snd (addUpdateEdge serve c spec g) = withIncrement g f" by auto
        with assms AddUpdate show ?thesis
          by (simp add: wellFormed_withIncrement onePerPair_withIncrement)
      qed
    qed
  next
    case (AddIfNotExists spec)
    show ?thesis
    proof (cases "outV spec \<in> vertexIds g \<and> inV spec \<in> vertexIds g")
      case False
      then have "addEdgeIfNotExists serve c spec g = (Rejected TransportError, g)"
        by (intro addEdgeIfNotExists_serve_missing) blast
      with assms AddIfNotExists show ?thesis by simp
    next
      case True
      show ?thesis
      proof (cases "edgesBetween g (outV spec) (inV spec)")
        case Nil
        with True assms(1)
        have "snd (addEdgeIfNotExists serve c spec g) = withEdge g (newEdge g spec)"
          by (simp add: addEdgeIfNotExists_serve_create)
        with create [of spec] True Nil AddIfNotExists show ?thesis by simp
      next
        case (Cons f fs)
        from addEdgeIfNotExists_serve_exists [OF assms(1) Cons, of c]
        have "snd (addEdgeIfNotExists serve c spec g) = g" by auto
        with assms AddIfNotExists show ?thesis by simp
      qed
    qed
  qed
qed

lemma helperCalls_keep:
  "wellFormed g \<Longrightarrow> onePerPair g \<Longrightarrow>
   wellFormed (helperCalls c calls g) \<and> onePerPair (helperCalls c calls g)"
proof (induction calls arbitrary: g)
  case Nil
  then show ?case by (simp add: helperCalls_def)
next
  case (Cons call calls)
  from helperStep_keeps [OF Cons.prems, of c call]
  have "wellFormed (helperCalls c calls (helperStep c call g))
        \<and> onePerPair (helperCalls c calls (helperStep c call g))"
    by (intro Cons.IH) simp_all
  then show ?case by (simp add: helperCalls_def)
qed



subsection \<open>Recording a recipe\<close>

lemma countedEdge_fields [simp]:
  "eid (countedEdge i l ov iv n) = i" "eout (countedEdge i l ov iv n) = ov"
  "ein (countedEdge i l ov iv n) = iv" "elabel (countedEdge i l ov iv n) = l"
  by (simp_all add: countedEdge_def)

lemma plainEdge_fields [simp]:
  "eid (plainEdge i l ov iv) = i" "eout (plainEdge i l ov iv) = ov"
  "ein (plainEdge i l ov iv) = iv" "elabel (plainEdge i l ov iv) = l"
  by (simp_all add: plainEdge_def)

lemma recorded_withEdge:
  "recorded g iu iw ir k1 k2 =
     withEdge (withEdge (withEdge g (countedEdge (nextId g) ''selects'' iu ir k1))
                 (countedEdge (Suc (nextId g)) ''selects'' iw ir k2))
       (plainEdge (Suc (Suc (nextId g))) ''has'' ir iw)"
  by (simp add: recorded_def withEdge_def)

lemma recorded_fields [simp]:
  "vertices (recorded g iu iw ir k1 k2) = vertices g"
  "vertexIds (recorded g iu iw ir k1 k2) = vertexIds g"
  by (simp_all add: recorded_withEdge)

lemma wellFormed_recorded:
  assumes "wellFormed g" and "iu \<in> vertexIds g" and "iw \<in> vertexIds g" and "ir \<in> vertexIds g"
  shows "wellFormed (recorded g iu iw ir k1 k2)"
  unfolding recorded_withEdge using assms
  by (intro wellFormed_withEdge) simp_all

lemma edgesBetween_recorded:
  assumes "edgesBetween g iu ir = []" and "edgesBetween g iw ir = []"
    and "edgesBetween g ir iw = []" and "iu \<noteq> iw" and "iw \<noteq> ir"
  shows "edgesBetween (recorded g iu iw ir k1 k2) iu ir
           = [countedEdge (nextId g) ''selects'' iu ir k1]"
    and "edgesBetween (recorded g iu iw ir k1 k2) iw ir
           = [countedEdge (Suc (nextId g)) ''selects'' iw ir k2]"
    and "edgesBetween (recorded g iu iw ir k1 k2) ir iw
           = [plainEdge (Suc (Suc (nextId g))) ''has'' ir iw]"
  using assms by (auto simp: recorded_withEdge edgesBetween_withEdge)

lemma edges_below_nextId:
  assumes "wellFormed g"
  shows "map (\<lambda>e. if eid e = nextId g + d then h e else e) (edges g) = edges g"
proof -
  from assms have "\<forall>e\<in>set (edges g). eid e \<noteq> nextId g + d"
    by (auto simp: wellFormed_def list_all_iff)
  then show ?thesis by (intro map_idI) simp
qed

lemma withIncrement_recorded_first:
  assumes "wellFormed g"
  shows "withIncrement (recorded g iu iw ir k1 k2) (countedEdge (nextId g) ''selects'' iu ir k1)
         = recorded g iu iw ir (roundToDouble (k1 + 1)) k2"
  using edges_below_nextId [OF assms, of 0]
  by (simp add: withIncrement_def recorded_def incrementedProperties_countedEdge
      setProperties_countedEdge)

lemma withIncrement_recorded_second:
  assumes "wellFormed g"
  shows "withIncrement (recorded g iu iw ir k1 k2)
           (countedEdge (Suc (nextId g)) ''selects'' iw ir k2)
         = recorded g iu iw ir k1 (roundToDouble (k2 + 1))"
  using edges_below_nextId [OF assms, of 1]
  by (simp add: withIncrement_def recorded_def incrementedProperties_countedEdge
      setProperties_countedEdge)

lemma selectsEdge_weighted: "selectsEdge a b = weightedEdge ''selects'' (vid a) (vid b)"
  by (simp add: selectsEdge_def weightedEdge_def)

lemma weightedEdge_fields [simp]:
  "outV (weightedEdge l ov iv) = ov" "inV (weightedEdge l ov iv) = iv"
  "label (weightedEdge l ov iv) = l"
  by (simp_all add: weightedEdge_def)

lemma recordRecipeRequestForUser_first:
  assumes w: "wellFormed g"
    and v: "vid u \<in> vertexIds g" "vid og \<in> vertexIds g" "vid r \<in> vertexIds g"
    and d: "vid u \<noteq> vid og" "vid og \<noteq> vid r"
    and e: "edgesBetween g (vid u) (vid r) = []" "edgesBetween g (vid og) (vid r) = []"
      "edgesBetween g (vid r) (vid og) = []"
    and p: "plain (graphIdText c)"
  shows "\<exists>x. recordRecipeRequestForUser (posting service) c r (Some og) u g =
           (Resolved x, recorded g (vid u) (vid og) (vid r) 1 1)"
proof -
  let ?e1 = "countedEdge (nextId g) ''selects'' (vid u) (vid r) 1"
  let ?g1 = "withEdge g ?e1"
  let ?e2 = "countedEdge (Suc (nextId g)) ''selects'' (vid og) (vid r) 1"
  let ?g2 = "withEdge ?g1 ?e2"
  let ?has = "\<lparr>label = ''has'', outV = vid r, inV = vid og, properties = None\<rparr>"
  from addUpdateEdge_weighted_first [OF w v(1) v(3) e(1) p plain_selects(1)]
  obtain x1 where 1: "addUpdateEdge (posting service) c (selectsEdge u r) g = (Resolved x1, ?g1)"
    by (auto simp: selectsEdge_weighted)
  have w1: "wellFormed ?g1" using v by (intro wellFormed_withEdge [OF w]) simp_all
  have b1: "edgesBetween ?g1 (vid og) (vid r) = []"
    using e d by (simp add: edgesBetween_withEdge)
  from addUpdateEdge_weighted_first [OF w1 _ _ b1 p plain_selects(1)] v
  obtain x2 where 2: "addUpdateEdge (posting service) c (selectsEdge og r) ?g1 = (Resolved x2, ?g2)"
    by (auto simp: selectsEdge_weighted)
  have w2: "wellFormed ?g2" using v by (intro wellFormed_withEdge [OF w1]) simp_all
  have b2: "edgesBetween ?g2 (outV ?has) (inV ?has) = []"
    using e d by (auto simp: edgesBetween_withEdge)
  have n: "newEdge ?g2 ?has = plainEdge (Suc (Suc (nextId g))) ''has'' (vid r) (vid og)"
    by (simp add: newEdge_def plainEdge_def)
  from addEdgeIfNotExists_service_create [OF w2 _ _ b2 p] v
  have 3: "addEdgeIfNotExists (posting service) c ?has ?g2 =
     (Resolved (Some (Single (E (newEdge ?g2 ?has)))), withEdge ?g2 (newEdge ?g2 ?has))"
    by simp
  from 1 2 3 show ?thesis
    unfolding n
    by (simp add: recordRecipeRequestForUser_def thenP_def recorded_withEdge)
qed

lemma recordRecipeRequestForUser_next:
  assumes w: "wellFormed g"
    and v: "vid u \<in> vertexIds g" "vid og \<in> vertexIds g" "vid r \<in> vertexIds g"
    and d: "vid u \<noteq> vid og" "vid og \<noteq> vid r"
    and e: "edgesBetween g (vid u) (vid r) = []" "edgesBetween g (vid og) (vid r) = []"
      "edgesBetween g (vid r) (vid og) = []"
    and p: "plain (graphIdText c)"
  shows "\<exists>x. recordRecipeRequestForUser (posting service) c r (Some og) u
                (recorded g (vid u) (vid og) (vid r) k1 k2) =
           (Resolved x, recorded g (vid u) (vid og) (vid r)
                          (roundToDouble (k1 + 1)) (roundToDouble (k2 + 1)))"
proof -
  let ?has = "\<lparr>label = ''has'', outV = vid r, inV = vid og, properties = None\<rparr>"
  let ?G = "recorded g (vid u) (vid og) (vid r) k1 k2"
  let ?G1 = "recorded g (vid u) (vid og) (vid r) (roundToDouble (k1 + 1)) k2"
  let ?G2 = "recorded g (vid u) (vid og) (vid r) (roundToDouble (k1 + 1))
               (roundToDouble (k2 + 1))"
  note wr = wellFormed_recorded [OF w v]
  note br = edgesBetween_recorded [OF e d]
  have s: "plain (label (selectsEdge a b))"
    "plainProps (case properties (selectsEdge a b) of None \<Rightarrow> [] | Some kvs \<Rightarrow> kvs)"
    for a b
    by (simp_all add: selectsEdge_def)
  have ce: "list_all (\<lambda>e. plainProps (incrementedProperties e)) [countedEdge j l a b k]"
    for j l a b k
    by (simp add: incrementedProperties_countedEdge)
  have o: "outV (selectsEdge a b) = vid a" "inV (selectsEdge a b) = vid b" for a b
    by (simp_all add: selectsEdge_def)
  from addUpdateEdge_service_update
    [where g = ?G and spec = "selectsEdge u r" and c = c, unfolded o, OF wr br(1) p s ce]
  obtain x1 where 1: "addUpdateEdge (posting service) c (selectsEdge u r) ?G = (Resolved x1, ?G1)"
    by (auto simp: withIncrement_recorded_first [OF w])
  from addUpdateEdge_service_update
    [where g = ?G1 and spec = "selectsEdge og r" and c = c, unfolded o, OF wr br(2) p s ce]
  obtain x2 where 2: "addUpdateEdge (posting service) c (selectsEdge og r) ?G1 = (Resolved x2, ?G2)"
    by (auto simp: withIncrement_recorded_second [OF w])
  have h: "plain (label ?has)"
    "plainProps (case properties ?has of None \<Rightarrow> [] | Some kvs \<Rightarrow> kvs)"
    by simp_all
  from addEdgeIfNotExists_service_exists
    [where g = ?G2 and spec = ?has and c = c and fs = "[]", OF wr _ p h]
    br(3) [of "roundToDouble (k1 + 1)" "roundToDouble (k2 + 1)"]
  obtain x3 where 3: "addEdgeIfNotExists (posting service) c ?has ?G2 = (Resolved x3, ?G2)"
    by auto
  from 1 2 3 show ?thesis
    by (simp add: recordRecipeRequestForUser_def thenP_def)
qed

lemma repeatedly_record_from:
  assumes w: "wellFormed g"
    and v: "vid u \<in> vertexIds g" "vid og \<in> vertexIds g" "vid r \<in> vertexIds g"
    and d: "vid u \<noteq> vid og" "vid og \<noteq> vid r"
    and e: "edgesBetween g (vid u) (vid r) = []" "edgesBetween g (vid og) (vid r) = []"
      "edgesBetween g (vid r) (vid og) = []"
    and p: "plain (graphIdText c)"
  shows "0 \<le> k \<Longrightarrow> k + int n \<le> 2 ^ 53 \<Longrightarrow>
         repeatedly n (recordRecipeRequestForUser (posting service) c r (Some og) u)
           (recorded g (vid u) (vid og) (vid r) k k)
         = (True, recorded g (vid u) (vid og) (vid r) (k + int n) (k + int n))"
proof (induction n arbitrary: k)
  case 0
  then show ?case by simp
next
  case (Suc n)
  from Suc.prems have k: "roundToDouble (k + 1) = k + 1" by (intro roundToDouble_succ) simp
  from recordRecipeRequestForUser_next [OF assms, of k k]
  obtain x where "recordRecipeRequestForUser (posting service) c r (Some og) u
                (recorded g (vid u) (vid og) (vid r) k k) =
           (Resolved x, recorded g (vid u) (vid og) (vid r) (k + 1) (k + 1))"
    unfolding k by blast
  with Suc.IH [of "k + 1"] Suc.prems show ?case by (simp add: add.assoc)
qed

lemma repeatedly_record:
  assumes w: "wellFormed g"
    and v: "vid u \<in> vertexIds g" "vid og \<in> vertexIds g" "vid r \<in> vertexIds g"
    and d: "vid u \<noteq> vid og" "vid og \<noteq> vid r"
    and e: "edgesBetween g (vid u) (vid r) = []" "edgesBetween g (vid og) (vid r) = []"
      "edgesBetween g (vid r) (vid og) = []"
    and p: "plain (graphIdText c)"
    and n: "0 < n" "n \<le> 2 ^ 53"
  shows "repeatedly n (recordRecipeRequestForUser (posting service) c r (Some og) u) g
         = (True, recorded g (vid u) (vid og) (vid r) (int n) (int n))"
proof -
  from n obtain m where m: "n = Suc m" by (cases n) auto
  from n(2) have "int n \<le> 2 ^ 53" by (simp add: of_nat_le_iff [symmetric] del: of_nat_le_iff)
  with m have b: "1 + int m \<le> 2 ^ 53" by simp
  from recordRecipeRequestForUser_first [OF w v d e p]
  obtain x where "recordRecipeRequestForUser (posting service) c r (Some og) u g =
           (Resolved x, recorded g (vid u) (vid og) (vid r) 1 1)" by blast
  with repeatedly_record_from [OF w v d e p, of 1 m] b show ?thesis
    by (simp add: m add.commute)
qed

lemma repeatedly_then_resolve:
  "repeatedly n (thenP m (\<lambda>_. resolve x)) s = repeatedly n m s"
proof (induction n arbitrary: s)
  case 0
  then show ?case by simp
next
  case (Suc n)
  then show ?case
    by (cases "m s") (auto simp: thenP_def resolve_def split: promise.splits)
qed

lemma repeatedly_record_no_origin:
  assumes "wellFormed g" and "vid u \<in> vertexIds g" and "vid r \<in> vertexIds g"
    and "edgesBetween g (vid u) (vid r) = []" and "plain (graphIdText c)"
    and "0 < n" and "n \<le> 2 ^ 53"
  shows "repeatedly n (recordRecipeRequestForUser (posting service) c r None u) g
         = (True, withEdge g (countedEdge (nextId g) ''selects'' (vid u) (vid r) (int n)))"
proof -
  have "recordRecipeRequestForUser (posting service) c r None u
        = thenP (addUpdateEdge (posting service) c (selectsEdge u r)) (\<lambda>_. resolve None)"
    by (simp add: recordRecipeRequestForUser_def)
  then show ?thesis
    using repeatedly_weighted [OF assms(1-5) plain_selects(1) assms(6,7)]
    by (simp add: repeatedly_then_resolve selectsEdge_weighted)
qed

lemma nextId_fresh: "wellFormed g \<Longrightarrow> nextId g \<notin> vertexIds g"
  by (auto simp: wellFormed_def list_all_iff vertexIds_def)

lemma no_edges_at_fresh:
  assumes "wellFormed g" and "i \<notin> vertexIds g"
  shows "edgesBetween g i j = []" and "edgesBetween g j i = []"
  using assms
  by (auto simp: wellFormed_def list_all_iff vertexIds_def edgesBetween_def filter_empty_conv)

lemma storedVertices_recorded [simp]:
  "storedVertices (recorded g iu iw ir k1 k2) l k x = storedVertices g l k x"
  by (simp add: storedVertices_def)

lemma storedVertices_withEdge [simp]:
  "storedVertices (withEdge g e) l k x = storedVertices g l k x"
  by (simp add: storedVertices_def)

lemma recipeVertexOf_fields [simp]:
  "vid (recipeVertexOf g i t d) = nextId g" "vlabel (recipeVertexOf g i t d) = ''recipe''"
  "hasValue (recipeVertexOf g i t d) ''name'' (getUniqueRecipeName i)"
  by (simp_all add: recipeVertexOf_def hasValue_def)

text \<open>
  The recipe vertex as \<^verbatim>\<open>addRecipe\<close> passes it, and what the service reads in the text
  of its creation.
\<close>

lemma recipe_readsAs:
  assumes "plain k" and "textual t" and "textualLines d"
  shows "list_all2 readsAs
           [(''name'', PStr k), (''title'', PStr (escapeApostrophes t)),
            (''detail'', PStr (escapeNewlines (escapeApostrophes d)))]
           [(''name'', PStr k), (''title'', PStr t), (''detail'', PStr (newlinesAsText d))]"
proof -
  have "plain ''name''" "plain ''title''" "plain ''detail''"
    by (simp_all add: plain_def plainChar_def backslash_def dquote_def dollar_def)
  with passes_escaped [OF plain_textual [OF assms(1)]] passes_title [OF assms(2)]
    passes_detail [OF assms(3)]
  show ?thesis by (simp add: readsAs_def)
qed

lemma addRecipe_upsert:
  assumes "plain (graphIdText c)" and "plain (getUniqueRecipeName i)"
    and "textual (trimJS t)" and "textualLines d"
  shows "addVertexIfNotExists (posting service) c
           \<lparr>vsLabel = ''recipe'',
            vsProps = [(''name'', PStr (getUniqueRecipeName i)),
                       (''title'', PStr (escapeApostrophes (trimJS t))),
                       (''detail'', PStr (escapeNewlines (escapeApostrophes d)))]\<rparr> ''name''
         = addVertexIfNotExists serve c
           \<lparr>vsLabel = ''recipe'',
            vsProps = [(''name'', PStr (getUniqueRecipeName i)),
                       (''title'', PStr (trimJS t)),
                       (''detail'', PStr (newlinesAsText d))]\<rparr> ''name''"
proof -
  have l: "plain ''recipe''" "plain ''name''"
    by (simp_all add: plain_def plainChar_def backslash_def dquote_def dollar_def)
  from addVertexIfNotExists_service_reads
    [where v = "\<lparr>vsLabel = ''recipe'',
            vsProps = [(''name'', PStr (getUniqueRecipeName i)),
                       (''title'', PStr (escapeApostrophes (trimJS t))),
                       (''detail'', PStr (escapeNewlines (escapeApostrophes d)))]\<rparr>"
       and k = "''name''" and c = c
       and ps' = "[(''name'', PStr (getUniqueRecipeName i)), (''title'', PStr (trimJS t)),
                   (''detail'', PStr (newlinesAsText d))]"]
    recipe_readsAs [OF assms(2-4)] l assms(1,2)
  show ?thesis by (simp add: propertyText_def)
qed

lemma addRecipe_upsert_absent:
  assumes "storedVertices g ''recipe'' ''name'' (getUniqueRecipeName i) = []"
    and "plain (graphIdText c)" and "plain (getUniqueRecipeName i)"
    and "textual (trimJS t)" and "textualLines d"
  shows "addVertexIfNotExists (posting service) c
           \<lparr>vsLabel = ''recipe'',
            vsProps = [(''name'', PStr (getUniqueRecipeName i)),
                       (''title'', PStr (escapeApostrophes (trimJS t))),
                       (''detail'', PStr (escapeNewlines (escapeApostrophes d)))]\<rparr> ''name'' g
         = (Resolved (Some (Single (V (recipeVertexOf g i t d)))),
            withVertex g (recipeVertexOf g i t d))"
  using assms(1)
  by (simp add: addRecipe_upsert [OF assms(2-5)] addVertexIfNotExists_serve_absent
      createVertex_serve propertyText_def recipeVertexOf_def)

lemma addRecipe_upsert_found:
  assumes "storedVertices g ''recipe'' ''name'' (getUniqueRecipeName i) = r # rs"
    and "plain (graphIdText c)" and "plain (getUniqueRecipeName i)"
    and "textual (trimJS t)" and "textualLines d"
  shows "addVertexIfNotExists (posting service) c
           \<lparr>vsLabel = ''recipe'',
            vsProps = [(''name'', PStr (getUniqueRecipeName i)),
                       (''title'', PStr (escapeApostrophes (trimJS t))),
                       (''detail'', PStr (escapeNewlines (escapeApostrophes d)))]\<rparr> ''name'' g
         = (Resolved (Some (Single (V r))), g)"
  unfolding addRecipe_upsert [OF assms(2-5)] using assms(1)
  by (intro addVertexIfNotExists_serve_found [where us = rs]) (simp add: propertyText_def)

lemma addRecipe_fresh_setting:
  assumes w: "wellFormed g" and v: "vid u \<in> vertexIds g" "vid og \<in> vertexIds g"
  shows "wellFormed (withVertex g (recipeVertexOf g i t d))"
    and "vid u \<in> vertexIds (withVertex g (recipeVertexOf g i t d))"
    and "vid og \<in> vertexIds (withVertex g (recipeVertexOf g i t d))"
    and "vid (recipeVertexOf g i t d) \<in> vertexIds (withVertex g (recipeVertexOf g i t d))"
    and "vid og \<noteq> vid (recipeVertexOf g i t d)"
    and "edgesBetween (withVertex g (recipeVertexOf g i t d)) (vid u) (vid (recipeVertexOf g i t d)) = []"
    and "edgesBetween (withVertex g (recipeVertexOf g i t d)) (vid og) (vid (recipeVertexOf g i t d)) = []"
    and "edgesBetween (withVertex g (recipeVertexOf g i t d)) (vid (recipeVertexOf g i t d)) (vid og) = []"
    and "nextId (withVertex g (recipeVertexOf g i t d)) = Suc (nextId g)"
  using w v nextId_fresh [OF w] no_edges_at_fresh [OF w nextId_fresh [OF w]]
  by (auto simp: wellFormed_withVertex)

lemma addRecipe_first:
  assumes w: "wellFormed g" and v: "vid u \<in> vertexIds g" "vid og \<in> vertexIds g"
    and d: "vid u \<noteq> vid og"
    and a: "storedVertices g ''recipe'' ''name'' (getUniqueRecipeName i) = []"
    and p: "plain (graphIdText c)" "plain (getUniqueRecipeName i)" "textual (trimJS t)"
      "textualLines dt"
  shows "addRecipe (posting service) c i t dt (Some og) u g =
           (Resolved (recipeVertexOf g i t dt),
            recorded (withVertex g (recipeVertexOf g i t dt)) (vid u) (vid og) (nextId g) 1 1)"
proof -
  let ?r = "recipeVertexOf g i t dt"
  note s = addRecipe_fresh_setting [OF w v, of i t dt]
  from recordRecipeRequestForUser_first [OF s(1) s(2) s(3) s(4) d s(5) s(6) s(7) s(8) p(1)]
  obtain x where "recordRecipeRequestForUser (posting service) c ?r (Some og) u (withVertex g ?r) =
           (Resolved x, recorded (withVertex g ?r) (vid u) (vid og) (nextId g) 1 1)"
    by auto
  then show ?thesis
    by (simp add: addRecipe_def thenP_def addRecipe_upsert_absent [OF a p] vertexOfRow_def
        resolve_def)
qed

lemma addRecipe_next:
  assumes w: "wellFormed g" and v: "vid u \<in> vertexIds g" "vid og \<in> vertexIds g"
    and d: "vid u \<noteq> vid og"
    and a: "storedVertices g ''recipe'' ''name'' (getUniqueRecipeName i) = []"
    and p: "plain (graphIdText c)" "plain (getUniqueRecipeName i)" "textual (trimJS t)"
      "textualLines dt"
  shows "addRecipe (posting service) c i t dt (Some og) u
           (recorded (withVertex g (recipeVertexOf g i t dt)) (vid u) (vid og) (nextId g) k1 k2) =
           (Resolved (recipeVertexOf g i t dt),
            recorded (withVertex g (recipeVertexOf g i t dt)) (vid u) (vid og) (nextId g)
              (roundToDouble (k1 + 1)) (roundToDouble (k2 + 1)))"
proof -
  let ?r = "recipeVertexOf g i t dt"
  let ?G = "recorded (withVertex g ?r) (vid u) (vid og) (nextId g) k1 k2"
  note s = addRecipe_fresh_setting [OF w v, of i t dt]
  from a have f: "storedVertices ?G ''recipe'' ''name'' (getUniqueRecipeName i) = ?r # []"
    by (simp add: storedVertices_withVertex)
  from recordRecipeRequestForUser_next
    [OF s(1) s(2) s(3) s(4) d s(5) s(6) s(7) s(8) p(1), of k1 k2]
  obtain x where "recordRecipeRequestForUser (posting service) c ?r (Some og) u ?G =
           (Resolved x, recorded (withVertex g ?r) (vid u) (vid og) (nextId g)
                          (roundToDouble (k1 + 1)) (roundToDouble (k2 + 1)))"
    by auto
  then show ?thesis
    by (simp add: addRecipe_def thenP_def addRecipe_upsert_found [OF f p] vertexOfRow_def
        resolve_def)
qed

lemma repeatedly_addRecipe:
  assumes w: "wellFormed g" and v: "vid u \<in> vertexIds g" "vid og \<in> vertexIds g"
    and d: "vid u \<noteq> vid og"
    and a: "storedVertices g ''recipe'' ''name'' (getUniqueRecipeName i) = []"
    and p: "plain (graphIdText c)" "plain (getUniqueRecipeName i)" "textual (trimJS t)"
      "textualLines dt"
    and n: "0 < n" "n \<le> 2 ^ 53"
  shows "repeatedly n (addRecipe (posting service) c i t dt (Some og) u) g =
           (True, recorded (withVertex g (recipeVertexOf g i t dt)) (vid u) (vid og) (nextId g)
                    (int n) (int n))"
proof -
  have rest: "0 \<le> k \<Longrightarrow> k + int m \<le> 2 ^ 53 \<Longrightarrow>
         repeatedly m (addRecipe (posting service) c i t dt (Some og) u)
           (recorded (withVertex g (recipeVertexOf g i t dt)) (vid u) (vid og) (nextId g) k k)
         = (True, recorded (withVertex g (recipeVertexOf g i t dt)) (vid u) (vid og) (nextId g)
                    (k + int m) (k + int m))" for m k
  proof (induction m arbitrary: k)
    case 0
    then show ?case by simp
  next
    case (Suc m)
    from Suc.prems have k: "roundToDouble (k + 1) = k + 1" by (intro roundToDouble_succ) simp
    from addRecipe_next [OF w v d a p, of k k] Suc.IH [of "k + 1"] Suc.prems show ?case
      by (simp add: add.assoc k)
  qed
  from n obtain m where m: "n = Suc m" by (cases n) auto
  from n(2) have "int n \<le> 2 ^ 53" by (simp add: of_nat_le_iff [symmetric] del: of_nat_le_iff)
  with m have b: "1 + int m \<le> 2 ^ 53" by simp
  from addRecipe_first [OF w v d a p] rest [of 1 m] b show ?thesis
    by (simp add: m add.commute)
qed

lemma addRecipe_no_origin_first:
  assumes w: "wellFormed g" and v: "vid u \<in> vertexIds g"
    and a: "storedVertices g ''recipe'' ''name'' (getUniqueRecipeName i) = []"
    and p: "plain (graphIdText c)" "plain (getUniqueRecipeName i)" "textual (trimJS t)"
      "textualLines dt"
  shows "addRecipe (posting service) c i t dt None u g =
           (Resolved (recipeVertexOf g i t dt),
            withEdge (withVertex g (recipeVertexOf g i t dt))
              (countedEdge (Suc (nextId g)) ''selects'' (vid u) (nextId g) 1))"
proof -
  let ?r = "recipeVertexOf g i t dt"
  note s = addRecipe_fresh_setting [OF w v v, of i t dt]
  from addUpdateEdge_weighted_first [OF s(1) s(2) s(4) s(6) p(1) plain_selects(1)]
  obtain x where "addUpdateEdge (posting service) c (selectsEdge u ?r) (withVertex g ?r) =
     (Resolved x, withEdge (withVertex g ?r)
        (countedEdge (Suc (nextId g)) ''selects'' (vid u) (nextId g) 1))"
    by (auto simp: selectsEdge_weighted)
  then show ?thesis
    by (simp add: addRecipe_def thenP_def addRecipe_upsert_absent [OF a p] vertexOfRow_def
        resolve_def recordRecipeRequestForUser_def)
qed

lemma addRecipe_no_origin_next:
  assumes w: "wellFormed g" and v: "vid u \<in> vertexIds g"
    and a: "storedVertices g ''recipe'' ''name'' (getUniqueRecipeName i) = []"
    and p: "plain (graphIdText c)" "plain (getUniqueRecipeName i)" "textual (trimJS t)"
      "textualLines dt"
  shows "addRecipe (posting service) c i t dt None u
           (withEdge (withVertex g (recipeVertexOf g i t dt))
              (countedEdge (Suc (nextId g)) ''selects'' (vid u) (nextId g) k)) =
           (Resolved (recipeVertexOf g i t dt),
            withEdge (withVertex g (recipeVertexOf g i t dt))
              (countedEdge (Suc (nextId g)) ''selects'' (vid u) (nextId g)
                 (roundToDouble (k + 1))))"
proof -
  let ?r = "recipeVertexOf g i t dt"
  let ?G = "withEdge (withVertex g ?r) (countedEdge (Suc (nextId g)) ''selects'' (vid u) (nextId g) k)"
  note s = addRecipe_fresh_setting [OF w v v, of i t dt]
  from a have f: "storedVertices ?G ''recipe'' ''name'' (getUniqueRecipeName i) = ?r # []"
    by (simp add: storedVertices_withVertex)
  from addUpdateEdge_weighted_next [OF s(1) s(2) s(4) s(6) p(1) plain_selects(1), of k]
  obtain x where "addUpdateEdge (posting service) c (selectsEdge u ?r) ?G =
     (Resolved x, withEdge (withVertex g ?r)
        (countedEdge (Suc (nextId g)) ''selects'' (vid u) (nextId g) (roundToDouble (k + 1))))"
    by (auto simp: selectsEdge_weighted)
  then show ?thesis
    by (simp add: addRecipe_def thenP_def addRecipe_upsert_found [OF f p] vertexOfRow_def
        resolve_def recordRecipeRequestForUser_def)
qed

lemma repeatedly_addRecipe_no_origin:
  assumes w: "wellFormed g" and v: "vid u \<in> vertexIds g"
    and a: "storedVertices g ''recipe'' ''name'' (getUniqueRecipeName i) = []"
    and p: "plain (graphIdText c)" "plain (getUniqueRecipeName i)" "textual (trimJS t)"
      "textualLines dt"
    and n: "0 < n" "n \<le> 2 ^ 53"
  shows "repeatedly n (addRecipe (posting service) c i t dt None u) g =
           (True, withEdge (withVertex g (recipeVertexOf g i t dt))
                    (countedEdge (Suc (nextId g)) ''selects'' (vid u) (nextId g) (int n)))"
proof -
  have rest: "0 \<le> k \<Longrightarrow> k + int m \<le> 2 ^ 53 \<Longrightarrow>
         repeatedly m (addRecipe (posting service) c i t dt None u)
           (withEdge (withVertex g (recipeVertexOf g i t dt))
              (countedEdge (Suc (nextId g)) ''selects'' (vid u) (nextId g) k))
         = (True, withEdge (withVertex g (recipeVertexOf g i t dt))
                    (countedEdge (Suc (nextId g)) ''selects'' (vid u) (nextId g) (k + int m)))"
    for m k
  proof (induction m arbitrary: k)
    case 0
    then show ?case by simp
  next
    case (Suc m)
    from Suc.prems have k: "roundToDouble (k + 1) = k + 1" by (intro roundToDouble_succ) simp
    from addRecipe_no_origin_next [OF w v a p, of k] Suc.IH [of "k + 1"] Suc.prems show ?case
      by (simp add: add.assoc k)
  qed
  from n obtain m where m: "n = Suc m" by (cases n) auto
  from n(2) have "int n \<le> 2 ^ 53" by (simp add: of_nat_le_iff [symmetric] del: of_nat_le_iff)
  with m have b: "1 + int m \<le> 2 ^ 53" by simp
  from addRecipe_no_origin_first [OF w v a p] rest [of 1 m] b show ?thesis
    by (simp add: m add.commute)
qed


lemma example_recipe_texts:
  "getUniqueRecipeName ''42'' = ''42''" "plain (getUniqueRecipeName ''42'')"
  "trimJS exampleTitle = exampleTitle" "textual (trimJS exampleTitle)"
  "textualLines exampleDetail"
  "newlinesAsText exampleDetail = ''Simmer.'' @ [backslash, CHR ''n''] @ ''Serve.''"
  by code_simp+



subsection \<open>The loop over the recommendation paths\<close>

lemma recommendStep_entry:
  assumes "recipeEntry p = Some e" and "entryKey e \<notin> set objectPrototypeKeys"
  shows "recommendStep n p (rs, h) =
     Resolved (case h (entryKey e) of
                 Some i \<Rightarrow>
                   (rs[i := (rs ! i)\<lparr>recommendedUserCount := recommendedUserCount (rs ! i) + 1\<rparr>], h)
               | None \<Rightarrow>
                   if n \<le> length rs then (rs, h)
                   else (rs @ [\<lparr>recId = fst e, recTitle = snd e, recommendedUserCount = 1\<rparr>],
                         h(entryKey e \<mapsto> length rs)))"
  using assms
  by (auto simp: recipeEntry_def recommendStep_def lookupHash_def entryKey_def Let_def
      split: row.splits list.splits element.splits option.splits)

lemma set_firstSeen [simp]: "set (firstSeen ks) = set ks"
  by (induction ks) auto

lemma filter_firstSeen: "filter P (firstSeen ks) = firstSeen (filter P ks)"
proof (induction ks)
  case Nil
  then show ?case by simp
next
  case (Cons k ks)
  have sw: "filter P (filter (\<lambda>x. x \<noteq> k) (firstSeen ks))
        = filter (\<lambda>x. x \<noteq> k) (filter P (firstSeen ks))"
    by (simp add: conj_commute)
  show ?case
  proof (cases "P k")
    case True
    with Cons sw show ?thesis by simp
  next
    case False
    then have "k \<notin> set (firstSeen (filter P ks))" by simp
    then have "filter (\<lambda>x. x \<noteq> k) (firstSeen (filter P ks)) = firstSeen (filter P ks)"
      unfolding filter_id_conv by blast
    with False Cons sw show ?thesis by simp
  qed
qed

lemma distinct_firstSeen [simp]: "distinct (firstSeen ks)"
  by (induction ks) auto

lemma hashOf_lookup:
  assumes "hashOf rs h"
  shows "(h k = None) = (k \<notin> set (map recipeKey rs))"
proof
  assume n: "h k = None"
  show "k \<notin> set (map recipeKey rs)"
  proof
    assume "k \<in> set (map recipeKey rs)"
    then obtain i where "i < length rs" "recipeKey (rs ! i) = k"
      by (auto simp: in_set_conv_nth)
    with assms have "h k = Some i" by (simp add: hashOf_def)
    with n show False by simp
  qed
next
  assume k: "k \<notin> set (map recipeKey rs)"
  show "h k = None"
  proof (cases "h k")
    case None
    then show ?thesis .
  next
    case (Some i)
    with assms have "i < length rs \<and> recipeKey (rs ! i) = k" by (simp add: hashOf_def)
    with k show ?thesis by auto
  qed
qed

lemma hashOf_append:
  assumes "hashOf rs h" and "recipeKey r \<notin> set (map recipeKey rs)"
  shows "hashOf (rs @ [r]) (h(recipeKey r \<mapsto> length rs))"
proof -
  from assms(2) have n: "recipeKey (rs ! i) \<noteq> recipeKey r" if "i < length rs" for i
    using that by (metis length_map nth_map nth_mem)
  from assms have d: "distinct (map recipeKey (rs @ [r]))" by (simp add: hashOf_def)
  have "((h(recipeKey r \<mapsto> length rs)) k = Some i)
        = (i < length (rs @ [r]) \<and> recipeKey ((rs @ [r]) ! i) = k)" for k i
    using assms(1) n [of i]
    by (cases "i < length rs") (auto simp: hashOf_def nth_append less_Suc_eq)
  with d show ?thesis by (simp add: hashOf_def)
qed

lemma hashOf_increment:
  assumes "hashOf rs h"
  shows "hashOf (rs[i := (rs ! i)\<lparr>recommendedUserCount := c\<rparr>]) h"
proof -
  have "recipeKey ((rs[i := (rs ! i)\<lparr>recommendedUserCount := c\<rparr>]) ! j) = recipeKey (rs ! j)"
    if "j < length rs" for j
    using that by (cases "j = i") (simp_all add: recipeKey_def)
  moreover from this
  have "map recipeKey (rs[i := (rs ! i)\<lparr>recommendedUserCount := c\<rparr>]) = map recipeKey rs"
    by (intro nth_equalityI) simp_all
  ultimately show ?thesis using assms by (auto simp: hashOf_def)
qed

lemma occurrences_simps [simp]:
  "occurrences k [] = 0"
  "occurrences k (e # es) = (if entryKey e = k then Suc (occurrences k es) else occurrences k es)"
  by (simp_all add: occurrences_def)

lemma emitted_other: "entryKey e \<noteq> k \<Longrightarrow> emitted (e # es) k = emitted es k"
  by (simp add: emitted_def)

lemma emitted_first:
  "emitted (e # es) (entryKey e) =
     \<lparr>recId = fst e, recTitle = snd e, recommendedUserCount = Suc (occurrences (entryKey e) es)\<rparr>"
  by (simp add: emitted_def)

lemma counted_other: "recipeKey r \<noteq> entryKey e \<Longrightarrow> counted (e # es) r = counted es r"
  by (auto simp: counted_def)

text \<open>
  What the loop makes of a state in which hash and list go together: the emitted recipes
  with the occurrences in the remaining paths counted, and after them the recipes for the
  first new keys, as many as the limit leaves room for.
\<close>

lemma recommendLoop_from:
  assumes "map recipeEntry paths = map Some es"
    and "\<forall>e\<in>set es. entryKey e \<notin> set objectPrototypeKeys"
    and "hashOf rs h"
  shows "\<exists>h'. recommendLoop n paths (rs, h) =
     Resolved (map (counted es) rs
               @ map (emitted es)
                   (take (n - length rs)
                      (firstSeen (filter (\<lambda>k. k \<notin> set (map recipeKey rs)) (map entryKey es)))),
               h')"
  using assms
proof (induction es arbitrary: paths rs h)
  case Nil
  then show ?case by (simp add: counted_def)
next
  case (Cons e es)
  from Cons.prems(1) obtain p ps where paths: "paths = p # ps"
    and p: "recipeEntry p = Some e" and ps: "map recipeEntry ps = map Some es"
    by (cases paths) auto
  from Cons.prems(2) have np: "entryKey e \<notin> set objectPrototypeKeys"
    and nps: "\<forall>e\<in>set es. entryKey e \<notin> set objectPrototypeKeys" by simp_all
  note step = recommendStep_entry [OF p np, of n rs h]
  let ?k = "entryKey e"
  show ?case
  proof (cases "h ?k")
    case (Some i)
    with Cons.prems(3) have i: "i < length rs" "recipeKey (rs ! i) = ?k"
      by (simp_all add: hashOf_def)
    let ?rs = "rs[i := (rs ! i)\<lparr>recommendedUserCount := recommendedUserCount (rs ! i) + 1\<rparr>]"
    have keys: "map recipeKey ?rs = map recipeKey rs"
      using i by (intro nth_equalityI) (simp_all add: nth_list_update recipeKey_def)
    from Cons.IH [OF ps nps hashOf_increment [OF Cons.prems(3)], of i "recommendedUserCount (rs ! i) + 1"]
    obtain h' where r: "recommendLoop n ps (?rs, h) =
       Resolved (map (counted es) ?rs
                 @ map (emitted es)
                     (take (n - length rs)
                        (firstSeen (filter (\<lambda>k. k \<notin> set (map recipeKey rs)) (map entryKey es)))),
                 h')"
      unfolding keys length_list_update by blast
    have c: "map (counted es) ?rs = map (counted (e # es)) rs"
    proof (intro nth_equalityI)
      show "length (map (counted es) ?rs) = length (map (counted (e # es)) rs)" by simp
    next
      fix j assume "j < length (map (counted es) ?rs)"
      then have j: "j < length rs" by simp
      show "map (counted es) ?rs ! j = map (counted (e # es)) rs ! j"
      proof (cases "j = i")
        case True
        with i j show ?thesis by (simp add: counted_def recipeKey_def)
      next
        case False
        from Cons.prems(3) have "distinct (map recipeKey rs)" by (simp add: hashOf_def)
        with False i j have "recipeKey (rs ! j) \<noteq> ?k"
          by (metis length_map nth_eq_iff_index_eq nth_map)
        with False j show ?thesis by (simp add: counted_other)
      qed
    qed
    from i have in_keys: "?k \<in> set (map recipeKey rs)" by (metis length_map nth_map nth_mem)
    have m: "map (emitted es) ks = map (emitted (e # es)) ks" if "?k \<notin> set ks" for ks
    proof (intro map_cong refl)
      fix x assume "x \<in> set ks"
      with that have "entryKey e \<noteq> x" by auto
      then show "emitted es x = emitted (e # es) x" by (simp add: emitted_other)
    qed
    have nk: "?k \<notin> set (take (n - length rs)
              (firstSeen (filter (\<lambda>k. k \<notin> set (map recipeKey rs)) (map entryKey es))))"
      using in_keys by (auto dest!: in_set_takeD)
    have x: "filter (\<lambda>k. k \<notin> set (map recipeKey rs)) (map entryKey (e # es))
             = filter (\<lambda>k. k \<notin> set (map recipeKey rs)) (map entryKey es)"
      using in_keys by simp
    have run: "recommendLoop n paths (rs, h) = recommendLoop n ps (?rs, h)"
      using step paths Some by simp
    from r show ?thesis unfolding run x c m [OF nk] by blast
  next
    case None
    with Cons.prems(3) have new: "?k \<notin> set (map recipeKey rs)" by (simp add: hashOf_lookup)
    have c: "map (counted es) rs = map (counted (e # es)) rs"
    proof (intro map_cong refl)
      fix x assume "x \<in> set rs"
      with new have "recipeKey x \<noteq> entryKey e" by (metis image_eqI set_map)
      then show "counted es x = counted (e # es) x" by (simp add: counted_other)
    qed
    show ?thesis
    proof (cases "n \<le> length rs")
      case True
      have run: "recommendLoop n paths (rs, h) = recommendLoop n ps (rs, h)"
        using step paths None True by simp
      from True have z: "n - length rs = 0" by simp
      from Cons.IH [OF ps nps Cons.prems(3)] show ?thesis
        unfolding run z c by simp
    next
      case False
      let ?r = "\<lparr>recId = fst e, recTitle = snd e, recommendedUserCount = 1\<rparr>"
      have rk': "recipeKey \<lparr>recId = fst e, recTitle = snd e, recommendedUserCount = c\<rparr> = ?k"
        for c by (simp add: recipeKey_def entryKey_def)
      have rk: "recipeKey ?r = ?k" by (simp add: recipeKey_def entryKey_def)
      from hashOf_append [of rs h ?r] Cons.prems(3) new rk
      have ho: "hashOf (rs @ [?r]) (h(?k \<mapsto> length rs))" by simp
      from Cons.IH [OF ps nps ho]
      obtain h' where r: "recommendLoop n ps (rs @ [?r], h(?k \<mapsto> length rs)) =
         Resolved (map (counted es) (rs @ [?r])
                   @ map (emitted es)
                       (take (n - Suc (length rs))
                          (firstSeen (filter (\<lambda>k. k \<notin> set (map recipeKey (rs @ [?r])))
                                        (map entryKey es)))),
                   h')"
        unfolding length_append_singleton by blast
      from False obtain m where m: "n - length rs = Suc m" "n - Suc (length rs) = m"
        by (cases "n - length rs") auto
      let ?X = "filter (\<lambda>k. k \<notin> set (map recipeKey rs)) (map entryKey es)"
      have f: "filter (\<lambda>k. k \<notin> set (map recipeKey (rs @ [?r]))) (map entryKey es)
               = filter (\<lambda>x. x \<noteq> ?k) ?X"
        by (auto simp: rk' intro: filter_cong)
      have ce: "counted es ?r = emitted (e # es) ?k"
        by (simp add: counted_def emitted_first rk')
      have mm: "map (emitted es) ks = map (emitted (e # es)) ks" if "?k \<notin> set ks" for ks
      proof (intro map_cong refl)
        fix x assume "x \<in> set ks"
        with that have "entryKey e \<noteq> x" by auto
        then show "emitted es x = emitted (e # es) x" by (simp add: emitted_other)
      qed
      have nk: "?k \<notin> set (take m (firstSeen (filter (\<lambda>x. x \<noteq> ?k) ?X)))"
        by (auto dest!: in_set_takeD)
      have x: "filter (\<lambda>k. k \<notin> set (map recipeKey rs)) (map entryKey (e # es)) = ?k # ?X"
        using new by simp
      have t: "take (n - length rs)
                 (firstSeen (filter (\<lambda>k. k \<notin> set (map recipeKey rs)) (map entryKey (e # es))))
               = ?k # take m (firstSeen (filter (\<lambda>x. x \<noteq> ?k) ?X))"
        unfolding x m(1) by (simp add: filter_firstSeen)
      have lists: "map (counted es) (rs @ [?r])
                   @ map (emitted es)
                       (take (n - Suc (length rs))
                          (firstSeen (filter (\<lambda>k. k \<notin> set (map recipeKey (rs @ [?r])))
                                        (map entryKey es))))
                 = map (counted (e # es)) rs
                   @ map (emitted (e # es))
                       (take (n - length rs)
                          (firstSeen (filter (\<lambda>k. k \<notin> set (map recipeKey rs))
                                        (map entryKey (e # es)))))"
        unfolding t f m(2) using c ce mm [OF nk] by simp
      have run: "recommendLoop n paths (rs, h)
                 = recommendLoop n ps (rs @ [?r], h(?k \<mapsto> length rs))"
        using step paths None False by simp
      from r show ?thesis unfolding run lists by blast
    qed
  qed
qed

text \<open>
  For paths that give a name and a title, none of the names a property of
  \<^verbatim>\<open>Object.prototype\<close>, the loop returns what claim C1 describes.
\<close>

lemma recommendedOf_expected:
  assumes "map recipeEntry paths = map Some es"
    and "\<forall>e\<in>set es. entryKey e \<notin> set objectPrototypeKeys"
  shows "recommendedOf n paths = Resolved (expectedRecipes n es)"
proof -
  have "hashOf [] Map.empty" by (simp add: hashOf_def)
  from recommendLoop_from [OF assms this, of n] show ?thesis
    by (auto simp: recommendedOf_def expectedRecipes_def)
qed

lemma expectedRecipes_bounds:
  "length (expectedRecipes n es) = min n (card (set (map entryKey es)))"
  "map recipeKey (expectedRecipes n es) = take n (firstSeen (map entryKey es))"
  "distinct (map recipeKey (expectedRecipes n es))"
proof -
  have k: "recipeKey (emitted es k) = k" if "k \<in> set (map entryKey es)" for k
  proof -
    from that have "filter (\<lambda>e. entryKey e = k) es \<noteq> []"
      by (auto simp: filter_empty_conv)
    then have "hd (filter (\<lambda>e. entryKey e = k) es) \<in> set (filter (\<lambda>e. entryKey e = k) es)"
      by (rule hd_in_set)
    then show ?thesis by (simp add: recipeKey_def emitted_def entryKey_def)
  qed
  have "length (firstSeen (map entryKey es)) = card (set (map entryKey es))"
    using distinct_card [of "firstSeen (map entryKey es)"] by simp
  then show "length (expectedRecipes n es) = min n (card (set (map entryKey es)))"
    by (simp add: expectedRecipes_def min.commute)
  have "\<forall>x\<in>set (take n (firstSeen (map entryKey es))). recipeKey (emitted es x) = x"
    using k by (auto dest!: in_set_takeD)
  then show m: "map recipeKey (expectedRecipes n es) = take n (firstSeen (map entryKey es))"
    by (simp add: expectedRecipes_def comp_def map_idI)
  show "distinct (map recipeKey (expectedRecipes n es))"
    unfolding m by (simp add: distinct_take)
qed

text \<open>
  The scenario of the specification: with the limit 2 and five recipes, the first two are
  returned with a count of 1 each; when a sixth path comes back to the second of them, its
  count is 2 and the result still has two recipes.
\<close>

lemma recommendedOf_limit_two:
  "recommendedOf 2 (map examplePath [''11'', ''12'', ''13'', ''14'', ''15''])
     = Resolved [\<lparr>recId = PStr ''11'', recTitle = PStr ''Soup'', recommendedUserCount = 1\<rparr>,
                 \<lparr>recId = PStr ''12'', recTitle = PStr ''Soup'', recommendedUserCount = 1\<rparr>]"
  "recommendedOf 2 (map examplePath [''11'', ''12'', ''13'', ''14'', ''15'', ''12''])
     = Resolved [\<lparr>recId = PStr ''11'', recTitle = PStr ''Soup'', recommendedUserCount = 1\<rparr>,
                 \<lparr>recId = PStr ''12'', recTitle = PStr ''Soup'', recommendedUserCount = 2\<rparr>]"
  by (simp_all add: recommendedOf_def recommendStep_def examplePath_def lookupHash_def
      objectPrototypeKeys_def)

subsection \<open>The end-to-end scenario of the specification\<close>

text \<open>
  On the empty graph: \<^verbatim>\<open>addUser("U1")\<close>, then \<^verbatim>\<open>addIngredient("Tomato, Basil", ...)\<close> and
  \<^verbatim>\<open>addIngredient("basil,TOMATO", ...)\<close> for that user. There is one ingredient vertex
  \<^verbatim>\<open>basil,tomato\<close>, and the \<^verbatim>\<open>selects\<close> edge from the user to it has the count 2.
\<close>

lemma addIngredient_scenario:
  "thenP (addUser (posting service) exampleClient ''U1'')
     (\<lambda>r. thenP (vertexOfRow r)
        (\<lambda>u. thenP (addIngredient (posting service) exampleClient ''Tomato, Basil'' ''[]'' u)
           (\<lambda>_. addIngredient (posting service) exampleClient ''basil,TOMATO'' ''[]'' u)))
     \<lparr>vertices = [], edges = [], nextId = 0\<rparr>
   = (Resolved \<lparr>vid = 1, vlabel = ''ingredient'',
                 vprops = [(''name'', PStr ''basil,tomato''), (''detail'', PStr ''[]'')]\<rparr>,
      \<lparr>vertices = [\<lparr>vid = 0, vlabel = ''person'', vprops = [(''name'', PStr ''U1'')]\<rparr>,
                   \<lparr>vid = 1, vlabel = ''ingredient'',
                      vprops = [(''name'', PStr ''basil,tomato''), (''detail'', PStr ''[]'')]\<rparr>],
       edges = [\<lparr>eid = 2, elabel = ''selects'', eout = 0, ein = 1,
                  eprops = Some [(''count'', PNum 2)]\<rparr>],
       nextId = 3\<rparr>)"
  by code_simp

subsection \<open>Favourites against the reference graph service\<close>

text \<open>
  A person with three outgoing edges: to an ingredient with the count 5, to one recipe
  with the count 1 and to another with the count 3. With the limit 2 the favourites are
  the two recipes, the one with the higher count first.
\<close>

lemma findFavoriteRecipesForUser_ordered:
  "fst (findFavoriteRecipesForUser (posting service) exampleClient exampleUser 2
     \<lparr>vertices = [exampleUser, exampleIngredient, exampleRecipe 2 ''42'' ''Tomato Soup'',
                  exampleRecipe 3 ''7'' ''Pesto''],
      edges = [countedEdge 4 ''selects'' 0 1 5, countedEdge 5 ''selects'' 0 2 1,
               countedEdge 6 ''selects'' 0 3 3, countedEdge 7 ''selects'' 1 2 9],
      nextId = 8\<rparr>)
   = Resolved [\<lparr>favId = PStr ''7'', favTitle = PStr ''Pesto''\<rparr>,
               \<lparr>favId = PStr ''42'', favTitle = PStr ''Tomato Soup''\<rparr>]"
  by code_simp

end
